theory Spec2Isabelle
  imports Main
begin

section \<open>JavaScript values\<close>

text \<open>
  The content tree of a page is whatever the front matter parser hands to the endpoints: a
  JavaScript value. Objects are kept as association lists in property enumeration order,
  arrays as their element list together with the named (non-index) properties that an
  assignment such as \<^verbatim>\<open>arr["title"] = v\<close> creates. A hole of a sparse array is
  represented by \<open>JUndefined\<close>, which is what reading it yields. Numbers are restricted to
  integers. A \<open>char\<close> stands for a code unit below 256.

  Property access covers own data properties. A name that a value inherits from its
  prototype (\<^verbatim>\<open>constructor\<close>, \<^verbatim>\<open>toString\<close>, \<^verbatim>\<open>__proto__\<close>, ...) and the
  \<^verbatim>\<open>length\<close> of arrays and strings are not own data properties of the tree: the code
  finds a function, a prototype object or a number of the runtime there. Those names are
  listed in \<open>member_names\<close> below, and every statement about a path is made for paths
  whose segments are \<open>plain_key\<close>s, for which reading and assigning are as defined here.
\<close>

datatype jsval =
    JUndefined
  | JNull
  | JBool bool
  | JNum int
  | JStr string
  | JArr "jsval list" "(string \<times> jsval) list"
  | JObj "(string \<times> jsval) list"

text \<open>What the code can throw. The endpoints are ES modules, hence strict mode: assigning a
  property on a primitive throws, as does any property access on null or undefined.\<close>

datatype error =
    TypeError
  | Error string
  | IOError

fun isArray :: "jsval \<Rightarrow> bool" where
  "isArray (JArr xs ps) = True"
| "isArray _ = False"

text \<open>\<^verbatim>\<open>!v\<close>: the falsy values.\<close>

fun falsy :: "jsval \<Rightarrow> bool" where
  "falsy JUndefined = True"
| "falsy JNull = True"
| "falsy (JBool b) = (\<not> b)"
| "falsy (JNum n) = (n = 0)"
| "falsy (JStr s) = (s = [])"
| "falsy _ = False"

subsection \<open>Numbers and strings\<close>

definition is_digit :: "char \<Rightarrow> bool" where
  "is_digit c = (48 \<le> (of_char c :: nat) \<and> (of_char c :: nat) \<le> 57)"

definition digit_val :: "char \<Rightarrow> int" where
  "digit_val c = int (of_char c) - 48"

definition digit_char :: "nat \<Rightarrow> char" where
  "digit_char d = ''0123456789'' ! d"

text \<open>White space as \<^verbatim>\<open>parseInt\<close> and \<^verbatim>\<open>trim\<close> skip it: TAB, LF, VT, FF, CR, SP, NBSP.\<close>

definition is_ws :: "char \<Rightarrow> bool" where
  "is_ws c = ((of_char c :: nat) \<in> {9, 10, 11, 12, 13, 32, 160})"

fun digits_val :: "int \<Rightarrow> string \<Rightarrow> int" where
  "digits_val acc [] = acc"
| "digits_val acc (c # cs) = digits_val (10 * acc + digit_val c) cs"

text \<open>\<^verbatim>\<open>parseInt(s, 10)\<close>: leading white space is skipped, one sign is accepted, then the
  longest run of decimal digits is read and the rest of the string is ignored; no digit
  gives NaN, here \<open>None\<close>. (Exact for results below \<open>2^53\<close> in magnitude.)\<close>

definition parseInt :: "string \<Rightarrow> int option" where
  "parseInt s =
     (let t = dropWhile is_ws s;
          neg = (t \<noteq> [] \<and> hd t = CHR ''-'');
          u = (if t \<noteq> [] \<and> (hd t = CHR ''-'' \<or> hd t = CHR ''+'') then tl t else t);
          ds = takeWhile is_digit u
      in if ds = [] then None
         else Some (if neg then - digits_val 0 ds else digits_val 0 ds))"

text \<open>A property name is an array index when it is the canonical decimal form of an
  integer below \<open>2^32 - 1\<close>.\<close>

definition array_index :: "string \<Rightarrow> nat option" where
  "array_index k =
     (if k \<noteq> [] \<and> list_all is_digit k \<and> (hd k = CHR ''0'' \<longrightarrow> length k = 1) \<and>
         digits_val 0 k < 4294967295
      then Some (nat (digits_val 0 k)) else None)"

text \<open>\<^verbatim>\<open>String(n)\<close> for an integer.\<close>

function dec_digits :: "nat \<Rightarrow> string" where
  "dec_digits n = (if n < 10 then [digit_char n] else dec_digits (n div 10) @ [digit_char (n mod 10)])"
  by pat_completeness auto
termination
  by (relation "measure id") auto

declare dec_digits.simps [simp del]

definition num_key :: "int \<Rightarrow> string" where
  "num_key i = (if i < 0 then CHR ''-'' # dec_digits (nat (- i)) else dec_digits (nat i))"

text \<open>\<^verbatim>\<open>s.split('.')\<close>: never empty, an empty string gives one empty part.\<close>

fun split_on :: "char \<Rightarrow> string \<Rightarrow> string list" where
  "split_on d [] = [[]]"
| "split_on d (c # cs) =
     (if c = d then [] # split_on d cs
      else (case split_on d cs of
              p # ps \<Rightarrow> (c # p) # ps
            | [] \<Rightarrow> [[c]]))"

subsection \<open>Own properties\<close>

text \<open>Property enumeration order of an object: array indices in ascending order first, then
  the other names in insertion order. Assigning to an existing name keeps its place.\<close>

fun insert_index :: "nat \<Rightarrow> string \<Rightarrow> 'a \<Rightarrow> (string \<times> 'a) list \<Rightarrow> (string \<times> 'a) list" where
  "insert_index i k v [] = [(k, v)]"
| "insert_index i k v ((k', v') # kvs) =
     (case array_index k' of
        Some j \<Rightarrow> if j < i then (k', v') # insert_index i k v kvs else (k, v) # (k', v') # kvs
      | None \<Rightarrow> (k, v) # (k', v') # kvs)"

fun replace_key :: "string \<Rightarrow> 'a \<Rightarrow> (string \<times> 'a) list \<Rightarrow> (string \<times> 'a) list" where
  "replace_key k v [] = []"
| "replace_key k v ((k', v') # kvs) =
     (if k' = k then (k, v) # kvs else (k', v') # replace_key k v kvs)"

definition obj_put :: "(string \<times> 'a) list \<Rightarrow> string \<Rightarrow> 'a \<Rightarrow> (string \<times> 'a) list" where
  "obj_put kvs k v =
     (if k \<in> fst ` set kvs then replace_key k v kvs
      else (case array_index k of
              Some i \<Rightarrow> insert_index i k v kvs
            | None \<Rightarrow> kvs @ [(k, v)]))"

text \<open>\<^verbatim>\<open>arr[i] = v\<close>: an index at or beyond the length grows the array, leaving holes.\<close>

definition arr_put :: "jsval list \<Rightarrow> nat \<Rightarrow> jsval \<Rightarrow> jsval list" where
  "arr_put xs i v =
     (if i < length xs then xs[i := v] else xs @ replicate (i - length xs) JUndefined @ [v])"

definition arr_get :: "jsval list \<Rightarrow> nat \<Rightarrow> jsval" where
  "arr_get xs i = (if i < length xs then xs ! i else JUndefined)"

definition obj_get :: "(string \<times> jsval) list \<Rightarrow> string \<Rightarrow> jsval" where
  "obj_get kvs k = (case map_of kvs k of Some v \<Rightarrow> v | None \<Rightarrow> JUndefined)"

text \<open>\<^verbatim>\<open>current[key]\<close> with a string key: \<open>own_prop\<close> is the value read from a
  value that is neither null nor undefined, \<open>prop_get\<close> adds the TypeError of those two.\<close>

fun nullish :: "jsval \<Rightarrow> bool" where
  "nullish JUndefined = True"
| "nullish JNull = True"
| "nullish _ = False"

fun own_prop :: "jsval \<Rightarrow> string \<Rightarrow> jsval" where
  "own_prop (JStr s) k =
     (case array_index k of
        Some i \<Rightarrow> if i < length s then JStr [s ! i] else JUndefined
      | None \<Rightarrow> JUndefined)"
| "own_prop (JArr xs ps) k =
     (case array_index k of
        Some i \<Rightarrow> arr_get xs i
      | None \<Rightarrow> obj_get ps k)"
| "own_prop (JObj kvs) k = obj_get kvs k"
| "own_prop _ k = JUndefined"

definition prop_get :: "jsval \<Rightarrow> string \<Rightarrow> error + jsval" where
  "prop_get c k = (if nullish c then Inl TypeError else Inr (own_prop c k))"

text \<open>\<^verbatim>\<open>current[key] = v\<close> with a string key; the result is the object after the
  assignment.\<close>

fun prop_set :: "jsval \<Rightarrow> string \<Rightarrow> jsval \<Rightarrow> error + jsval" where
  "prop_set (JArr xs ps) k v =
     (case array_index k of
        Some i \<Rightarrow> Inr (JArr (arr_put xs i v) ps)
      | None \<Rightarrow> Inr (JArr xs (obj_put ps k v)))"
| "prop_set (JObj kvs) k v = Inr (JObj (obj_put kvs k v))"
| "prop_set _ k v = Inl TypeError"

text \<open>\<^verbatim>\<open>current[index]\<close> and \<^verbatim>\<open>current[index] = v\<close> with a number: the property name is
  \<^verbatim>\<open>String(index)\<close>.\<close>

definition idx_get :: "jsval \<Rightarrow> int \<Rightarrow> jsval" where
  "idx_get c i = own_prop c (num_key i)"

definition idx_set :: "jsval \<Rightarrow> int \<Rightarrow> jsval \<Rightarrow> error + jsval" where
  "idx_set c i v = prop_set c (num_key i) v"

subsection \<open>Keys within the model\<close>

text \<open>
  The member names of \<^verbatim>\<open>Object.prototype\<close>, \<^verbatim>\<open>Array.prototype\<close>,
  \<^verbatim>\<open>String.prototype\<close>, \<^verbatim>\<open>Number.prototype\<close> and \<^verbatim>\<open>Boolean.prototype\<close>
  (ECMAScript 2024 with Annex B), and \<^verbatim>\<open>length\<close>. With one of them as a key,
  \<^verbatim>\<open>current[key]\<close> is not a lookup in the tree.
\<close>

definition member_names :: "string list" where
  "member_names =
     [''constructor'', ''__proto__'', ''__defineGetter__'', ''__defineSetter__'',
      ''__lookupGetter__'', ''__lookupSetter__'', ''hasOwnProperty'', ''isPrototypeOf'',
      ''propertyIsEnumerable'', ''toLocaleString'', ''toString'', ''valueOf'',
      ''length'', ''at'', ''concat'', ''copyWithin'', ''entries'', ''every'', ''fill'', ''filter'',
      ''find'', ''findIndex'', ''findLast'', ''findLastIndex'', ''flat'', ''flatMap'', ''forEach'',
      ''group'', ''groupToMap'', ''includes'', ''indexOf'', ''join'', ''keys'', ''lastIndexOf'',
      ''map'', ''pop'', ''push'', ''reduce'', ''reduceRight'', ''reverse'', ''shift'', ''slice'',
      ''some'', ''sort'', ''splice'', ''toReversed'', ''toSorted'', ''toSpliced'', ''unshift'',
      ''values'', ''with'',
      ''anchor'', ''big'', ''blink'', ''bold'', ''charAt'', ''charCodeAt'', ''codePointAt'',
      ''endsWith'', ''fixed'', ''fontcolor'', ''fontsize'', ''isWellFormed'', ''italics'', ''link'',
      ''localeCompare'', ''match'', ''matchAll'', ''normalize'', ''padEnd'', ''padStart'', ''repeat'',
      ''replace'', ''replaceAll'', ''search'', ''small'', ''split'', ''startsWith'', ''strike'',
      ''sub'', ''substr'', ''substring'', ''sup'', ''toLocaleLowerCase'', ''toLocaleUpperCase'',
      ''toLowerCase'', ''toUpperCase'', ''toWellFormed'', ''trim'', ''trimEnd'', ''trimLeft'',
      ''trimRight'', ''trimStart'',
      ''toExponential'', ''toFixed'', ''toPrecision'']"

text \<open>The run of digits that \<^verbatim>\<open>parseInt\<close> reads. Up to fifteen digits the number is
  exact and \<^verbatim>\<open>String\<close> of it is its decimal form; beyond, the code computes with a
  rounded double.\<close>

definition digit_run :: "string \<Rightarrow> string" where
  "digit_run s =
     (let t = dropWhile is_ws s;
          u = (if t \<noteq> [] \<and> (hd t = CHR ''-'' \<or> hd t = CHR ''+'') then tl t else t)
      in takeWhile is_digit u)"

definition plain_key :: "string \<Rightarrow> bool" where
  "plain_key k = (k \<notin> set member_names \<and> length (digit_run k) \<le> 15)"

section \<open>The path addressor\<close>

text \<open>
  \<^verbatim>\<open>setNestedValue(obj, pathStr, value)\<close> exists three times in the sources: in the field
  endpoint, in the instruction endpoint and in the array endpoint. The loop over the
  intermediate keys is the same in all three; the first two end with
  \<^verbatim>\<open>if (!isNaN(index) && Array.isArray(current)) current[index] = value else current[lastKey] = value\<close>,
  the array endpoint ends with \<^verbatim>\<open>current[lastKey] = value\<close>.

  The code mutates the tree in place while \<^verbatim>\<open>current\<close> walks down. Here each level
  returns the object it has become and the parent stores it back under the key it was read
  from, which is the same tree. An exception leaves the caller without a result; no
  caller writes after one.
\<close>

definition nextIsIndex :: "string \<Rightarrow> bool" where
  "nextIsIndex nextKey = (parseInt nextKey \<noteq> None)"

definition fresh_container :: "string \<Rightarrow> jsval" where
  "fresh_container nextKey = (if nextIsIndex nextKey then JArr [] [] else JObj [])"

definition assign_last :: "jsval \<Rightarrow> string \<Rightarrow> jsval \<Rightarrow> error + jsval" where
  "assign_last current lastKey v =
     (case parseInt lastKey of
        Some index \<Rightarrow> if isArray current then idx_set current index v else prop_set current lastKey v
      | None \<Rightarrow> prop_set current lastKey v)"

fun setNestedParts ::
  "(jsval \<Rightarrow> string \<Rightarrow> jsval \<Rightarrow> error + jsval) \<Rightarrow> jsval \<Rightarrow> string list \<Rightarrow> jsval \<Rightarrow> error + jsval"
where
  "setNestedParts final current [] v = Inr current"
| "setNestedParts final current [lastKey] v = final current lastKey v"
| "setNestedParts final current (key # nextKey # rest) v =
     (case prop_get current key of
        Inl e \<Rightarrow> Inl e
      | Inr child \<Rightarrow>
          if child = JUndefined then
            (case prop_set current key (fresh_container nextKey) of
               Inl e \<Rightarrow> Inl e
             | Inr current' \<Rightarrow>
                 (case setNestedParts final (fresh_container nextKey) (nextKey # rest) v of
                    Inl e \<Rightarrow> Inl e
                  | Inr child' \<Rightarrow> prop_set current' key child'))
          else
            (case setNestedParts final child (nextKey # rest) v of
               Inl e \<Rightarrow> Inl e
             | Inr child' \<Rightarrow> prop_set current key child'))"

definition setNestedValue :: "jsval \<Rightarrow> string \<Rightarrow> jsval \<Rightarrow> error + jsval" where
  "setNestedValue obj pathStr v = setNestedParts assign_last obj (split_on CHR ''.'' pathStr) v"

definition setNestedValueA :: "jsval \<Rightarrow> string \<Rightarrow> jsval \<Rightarrow> error + jsval" where
  "setNestedValueA obj pathStr v = setNestedParts prop_set obj (split_on CHR ''.'' pathStr) v"

text \<open>\<^verbatim>\<open>getNestedValue\<close>: a reduce over the parts that never throws.\<close>

definition get_step :: "jsval \<Rightarrow> string \<Rightarrow> jsval" where
  "get_step current key =
     (if current = JUndefined \<or> current = JNull then JUndefined
      else (case parseInt key of
              Some index \<Rightarrow> if isArray current then idx_get current index else own_prop current key
            | None \<Rightarrow> own_prop current key))"

definition getNestedValue :: "jsval \<Rightarrow> string \<Rightarrow> jsval" where
  "getNestedValue obj pathStr = foldl get_step obj (split_on CHR ''.'' pathStr)"

text \<open>The array endpoint's copy returns the object itself for an empty path.\<close>

definition getNestedValueA :: "jsval \<Rightarrow> string \<Rightarrow> jsval" where
  "getNestedValueA obj pathStr = (if pathStr = [] then obj else getNestedValue obj pathStr)"

fun isObject :: "jsval \<Rightarrow> bool" where
  "isObject (JObj kvs) = True"
| "isObject _ = False"

text \<open>A final assignment that leaves the kind of the object it assigns to as it was; both
  endings of \<^verbatim>\<open>setNestedValue\<close> are of this sort.\<close>

definition keeps_kind :: "(jsval \<Rightarrow> string \<Rightarrow> jsval \<Rightarrow> error + jsval) \<Rightarrow> bool" where
  "keeps_kind final =
     (\<forall>c k v c'. final c k v = Inr c' \<longrightarrow> isArray c' = isArray c \<and> isObject c' = isObject c)"

text \<open>A numeric path segment in the sense of the addressing syntax: a base-10 non-negative
  integer, that is a non-empty string of decimal digits.\<close>

definition numeric_segment :: "string \<Rightarrow> bool" where
  "numeric_segment s = (s \<noteq> [] \<and> list_all is_digit s)"

text \<open>A path segment that \<^verbatim>\<open>getNestedValue\<close> and the loop of \<^verbatim>\<open>setNestedValue\<close> read
  alike on an array: one that \<^verbatim>\<open>parseInt\<close> rejects, or the canonical decimal form of an
  array index. (\<open>01\<close> and \<open>1x\<close> are not: \<^verbatim>\<open>parseInt\<close> reads 1 from them, while
  \<^verbatim>\<open>current["01"]\<close> is a named property.)\<close>

definition canonical_key :: "string \<Rightarrow> bool" where
  "canonical_key k = (parseInt k = None \<or> array_index k \<noteq> None)"

text \<open>What both endings of \<^verbatim>\<open>setNestedValue\<close> have in common: they assign to an Array or
  an Object only, leave its kind as it was, and assigning the same value again changes
  nothing.\<close>

definition final_assign :: "(jsval \<Rightarrow> string \<Rightarrow> jsval \<Rightarrow> error + jsval) \<Rightarrow> bool" where
  "final_assign final =
     (\<forall>c k v c'. final c k v = Inr c' \<longrightarrow>
        (isArray c \<or> isObject c) \<and> isArray c' = isArray c \<and> isObject c' = isObject c \<and>
        final c' k v = Inr c')"

section \<open>Flattening\<close>

text \<open>
  \<^verbatim>\<open>flattenMicrotext(obj, prefix)\<close> returns a JavaScript object from path to string; it is
  kept as an association list in enumeration order, filled by \<^verbatim>\<open>result[k] = v\<close> and
  \<^verbatim>\<open>Object.assign(result, sub)\<close>.

  The loop \<^verbatim>\<open>for (const [key, value] of Object.entries(obj))\<close> is \<open>flatten_entries\<close> over
  the named properties and \<open>flatten_elements\<close> over the elements of an array, whose keys
  are their indices; \<open>flatten_entry\<close> is the loop body and \<open>flatten_items\<close> the
  \<^verbatim>\<open>value.forEach((item, index) => ...)\<close> inside it. A recursive call
  \<^verbatim>\<open>flattenMicrotext(x, p)\<close> on an object or array \<open>x\<close> is written as the loop over the
  entries of \<open>x\<close> with an empty result; on null (whose \<^verbatim>\<open>typeof\<close> is \<^verbatim>\<open>'object'\<close>)
  \<^verbatim>\<open>Object.entries\<close> throws.
\<close>

definition object_assign :: "(string \<times> 'a) list \<Rightarrow> (string \<times> 'a) list \<Rightarrow> (string \<times> 'a) list" where
  "object_assign result sub = foldl (\<lambda>r (k, v). obj_put r k v) result sub"

definition fullKey :: "string \<Rightarrow> string \<Rightarrow> string" where
  "fullKey prefix key = (if prefix \<noteq> [] then prefix @ ''.'' @ key else key)"

definition itemKey :: "string \<Rightarrow> nat \<Rightarrow> string" where
  "itemKey fk index = fk @ ''.'' @ num_key (int index)"

function flatten_entries ::
    "(string \<times> jsval) list \<Rightarrow> string \<Rightarrow> (string \<times> string) list \<Rightarrow> error + (string \<times> string) list"
and flatten_elements ::
    "jsval list \<Rightarrow> nat \<Rightarrow> string \<Rightarrow> (string \<times> string) list \<Rightarrow> error + (string \<times> string) list"
and flatten_entry ::
    "string \<Rightarrow> jsval \<Rightarrow> (string \<times> string) list \<Rightarrow> error + (string \<times> string) list"
and flatten_items ::
    "jsval list \<Rightarrow> nat \<Rightarrow> string \<Rightarrow> (string \<times> string) list \<Rightarrow> error + (string \<times> string) list"
where
  "flatten_entries [] prefix result = Inr result"
| "flatten_entries (kv # kvs) prefix result =
     (case flatten_entry (fullKey prefix (fst kv)) (snd kv) result of
        Inl e \<Rightarrow> Inl e
      | Inr result' \<Rightarrow> flatten_entries kvs prefix result')"
| "flatten_elements [] i prefix result = Inr result"
| "flatten_elements (x # xs) i prefix result =
     (case flatten_entry (fullKey prefix (num_key (int i))) x result of
        Inl e \<Rightarrow> Inl e
      | Inr result' \<Rightarrow> flatten_elements xs (Suc i) prefix result')"
| "flatten_entry fk v result =
     (case v of
        JStr s \<Rightarrow> Inr (obj_put result fk s)
      | JArr items ps \<Rightarrow> flatten_items items 0 fk result
      | JObj kvs \<Rightarrow>
          (case flatten_entries kvs fk [] of
             Inl e \<Rightarrow> Inl e
           | Inr sub \<Rightarrow> Inr (object_assign result sub))
      | _ \<Rightarrow> Inr result)"
| "flatten_items [] index fk result = Inr result"
| "flatten_items (item # items) index fk result =
     (case item of
        JStr s \<Rightarrow> flatten_items items (Suc index) fk (obj_put result (itemKey fk index) s)
      | JObj kvs \<Rightarrow>
          (case flatten_entries kvs (itemKey fk index) [] of
             Inl e \<Rightarrow> Inl e
           | Inr sub \<Rightarrow> flatten_items items (Suc index) fk (object_assign result sub))
      | JArr xs ps \<Rightarrow>
          (case flatten_elements xs 0 (itemKey fk index) [] of
             Inl e \<Rightarrow> Inl e
           | Inr sub0 \<Rightarrow>
               (case flatten_entries ps (itemKey fk index) sub0 of
                  Inl e \<Rightarrow> Inl e
                | Inr sub \<Rightarrow> flatten_items items (Suc index) fk (object_assign result sub)))
      | JNull \<Rightarrow> Inl TypeError
      | _ \<Rightarrow> flatten_items items (Suc index) fk result)"
  by pat_completeness auto

termination
  by (relation "measure (\<lambda>x. case x of
         Inl (Inl (kvs, _)) \<Rightarrow> size_list (size_prod (\<lambda>x. 0) size) kvs
       | Inl (Inr (xs, _)) \<Rightarrow> size_list size xs
       | Inr (Inl (_, v, _)) \<Rightarrow> size v
       | Inr (Inr (items, _)) \<Rightarrow> size_list size items)")
     auto

fun flattenMicrotext :: "jsval \<Rightarrow> string \<Rightarrow> error + (string \<times> string) list" where
  "flattenMicrotext (JObj kvs) prefix = flatten_entries kvs prefix []"
| "flattenMicrotext (JArr xs ps) prefix =
     (case flatten_elements xs 0 prefix [] of
        Inl e \<Rightarrow> Inl e
      | Inr r \<Rightarrow> flatten_entries ps prefix r)"
| "flattenMicrotext (JStr s) prefix = flatten_elements (map (\<lambda>c. JStr [c]) s) 0 prefix []"
| "flattenMicrotext JNull prefix = Inl TypeError"
| "flattenMicrotext JUndefined prefix = Inl TypeError"
| "flattenMicrotext (JBool b) prefix = Inr []"
| "flattenMicrotext (JNum n) prefix = Inr []"

text \<open>Rebuilding a tree from flat entries: one targeted write per entry, in the order of
  the entries, starting from the given tree.\<close>

fun unflattenInto :: "jsval \<Rightarrow> (string \<times> string) list \<Rightarrow> error + jsval" where
  "unflattenInto tree [] = Inr tree"
| "unflattenInto tree ((p, s) # es) =
     (case setNestedValue tree p (JStr s) of
        Inl e \<Rightarrow> Inl e
      | Inr tree' \<Rightarrow> unflattenInto tree' es)"

section \<open>Paths\<close>

text \<open>The POSIX flavour of Node's \<^verbatim>\<open>path\<close> module. \<open>normalizeString\<close> drops empty and
  \<^verbatim>\<open>.\<close> segments and lets \<^verbatim>\<open>..\<close> remove the segment before it; above the start, \<^verbatim>\<open>..\<close>
  is kept only when \<open>allowAboveRoot\<close> holds. The segments are collected in reverse.\<close>

fun intercalate :: "string \<Rightarrow> string list \<Rightarrow> string" where
  "intercalate sep [] = []"
| "intercalate sep [p] = p"
| "intercalate sep (p # q # ps) = p @ sep @ intercalate sep (q # ps)"

fun normalize_step :: "bool \<Rightarrow> string list \<Rightarrow> string \<Rightarrow> string list" where
  "normalize_step allowAboveRoot res seg =
     (if seg = [] \<or> seg = ''.'' then res
      else if seg = ''..'' then
        (case res of
           [] \<Rightarrow> if allowAboveRoot then [''..''] else []
         | lastSeg # below \<Rightarrow>
             if lastSeg = ''..'' then (if allowAboveRoot then ''..'' # res else res) else below)
      else seg # res)"

definition normalizeString :: "string \<Rightarrow> bool \<Rightarrow> string" where
  "normalizeString p allowAboveRoot =
     intercalate ''/'' (rev (foldl (normalize_step allowAboveRoot) [] (split_on CHR ''/'' p)))"

definition normalize :: "string \<Rightarrow> string" where
  "normalize p =
     (if p = [] then ''.''
      else let isAbsolute = (hd p = CHR ''/'');
               trailingSeparator = (last p = CHR ''/'');
               r = normalizeString p (\<not> isAbsolute)
           in if r = [] then (if isAbsolute then ''/'' else if trailingSeparator then ''./'' else ''.'')
              else (if isAbsolute then ''/'' else []) @ r @ (if trailingSeparator then ''/'' else []))"

definition join :: "string list \<Rightarrow> string" where
  "join args =
     (let joined = intercalate ''/'' (filter (\<lambda>a. a \<noteq> []) args)
      in if joined = [] then ''.'' else normalize joined)"

text \<open>\<^verbatim>\<open>s.replace(/^(\.\.(\/|\\|$))+/, '')\<close>: leading \<^verbatim>\<open>../\<close> and \<^verbatim>\<open>..\\<close> groups are removed, and
  a final \<^verbatim>\<open>..\<close> that ends the string.\<close>

fun strip_dotdots :: "string \<Rightarrow> string" where
  "strip_dotdots (a # b # c # rest) =
     (if a = CHR ''.'' \<and> b = CHR ''.'' \<and> (c = CHR ''/'' \<or> c = CHR 0x5C) then strip_dotdots rest
      else a # b # c # rest)"
| "strip_dotdots s = (if s = ''..'' then [] else s)"

definition startsWith :: "string \<Rightarrow> string \<Rightarrow> bool" where
  "startsWith s p = (take (length p) s = p)"

section \<open>The environment of the endpoints\<close>

text \<open>
  What the endpoints use and the repository does not contain is a parameter: the working
  directory, \<^verbatim>\<open>fs.realpath\<close> (\<open>None\<close> when it rejects), the front matter library
  (\<^verbatim>\<open>matter(content)\<close> gives the data and the body, \<^verbatim>\<open>matter.stringify(body, data)\<close> a
  file content; \<open>None\<close> when they throw), the API key and the text generation service
  together with the parsing of its answer. The type \<open>'f\<close> is that of file contents. The
  files are a map from paths; \<^verbatim>\<open>readFile\<close> of a missing path throws.
\<close>

record change =
  change_id :: string
  oldValue :: string
  newValue :: string
  reasoning :: string

record 'f env =
  cwd :: string
  realpath :: "string \<Rightarrow> string option"
  matter :: "'f \<Rightarrow> (jsval \<times> string) option"
  stringify :: "string \<Rightarrow> jsval \<Rightarrow> 'f option"
  api_key :: "string option"
  llm :: "string \<Rightarrow> (string \<times> string) list \<Rightarrow> error + change list"

record response =
  status :: nat
  body :: jsval

type_synonym 'f files = "string \<rightharpoonup> 'f"

definition json_error :: "nat \<Rightarrow> string \<Rightarrow> response" where
  "json_error st msg = \<lparr>status = st, body = JObj [(''error'', JStr msg)]\<rparr>"

definition readFile :: "'f files \<Rightarrow> string \<Rightarrow> error + 'f" where
  "readFile fs p = (case fs p of None \<Rightarrow> Inl IOError | Some f \<Rightarrow> Inr f)"

definition parse_matter :: "'f env \<Rightarrow> 'f \<Rightarrow> error + (jsval \<times> string)" where
  "parse_matter E f = (case matter E f of None \<Rightarrow> Inl IOError | Some d \<Rightarrow> Inr d)"

definition write_matter :: "'f env \<Rightarrow> 'f files \<Rightarrow> string \<Rightarrow> string \<Rightarrow> jsval \<Rightarrow> error + 'f files" where
  "write_matter E fs filePath mdxBody fm =
     (case stringify E mdxBody fm of
        None \<Rightarrow> Inl IOError
      | Some updatedFile \<Rightarrow> Inr (fs(filePath \<mapsto> updatedFile)))"

definition PAGES_DIR :: "'f env \<Rightarrow> string" where
  "PAGES_DIR E = join [cwd E, ''src/pages'']"

text \<open>\<^verbatim>\<open>const slug = !pageSlug || pageSlug === '' ? 'index' : pageSlug\<close> and the sanitising of
  the slug, shared by the field endpoint and \<^verbatim>\<open>getFilePath\<close>.\<close>

definition slug_of :: "string option \<Rightarrow> string" where
  "slug_of pageSlug = (case pageSlug of None \<Rightarrow> ''index'' | Some s \<Rightarrow> if s = [] then ''index'' else s)"

definition safePath :: "string \<Rightarrow> string" where
  "safePath slug = strip_dotdots (normalize slug)"

text \<open>\<^verbatim>\<open>if (!frontmatter.microtext) frontmatter.microtext = {}\<close>: the front matter and its
  microtext afterwards.\<close>

definition ensure_microtext :: "jsval \<Rightarrow> error + (jsval \<times> jsval)" where
  "ensure_microtext fm =
     (case prop_get fm ''microtext'' of
        Inl e \<Rightarrow> Inl e
      | Inr mt \<Rightarrow>
          if falsy mt then
            (case prop_set fm ''microtext'' (JObj []) of
               Inl e \<Rightarrow> Inl e
             | Inr fm' \<Rightarrow> Inr (fm', JObj []))
          else Inr (fm, mt))"

section \<open>The field endpoint: POST /api/microtext\<close>

text \<open>The request body is \<^verbatim>\<open>{ pageSlug: string, id: string, value }\<close>; a field that is
  absent is \<open>None\<close>. The part of the handler after the path checks is \<open>update_microtext\<close>;
  whatever it throws is caught by the handler and answered with status 500.\<close>

definition update_microtext ::
  "'f env \<Rightarrow> 'f files \<Rightarrow> string \<Rightarrow> string \<Rightarrow> jsval \<Rightarrow> error + (jsval \<times> 'f files)"
where
  "update_microtext E fs filePath ident v =
     (case readFile fs filePath of
        Inl e \<Rightarrow> Inl e
      | Inr fileContent \<Rightarrow>
     (case parse_matter E fileContent of
        Inl e \<Rightarrow> Inl e
      | Inr (frontmatter, mdxBody) \<Rightarrow>
     (case ensure_microtext frontmatter of
        Inl e \<Rightarrow> Inl e
      | Inr (frontmatter1, microtext) \<Rightarrow>
          let previous = (if CHR ''.'' \<in> set ident then getNestedValue microtext ident
                          else own_prop microtext ident)
          in
     (case (if CHR ''.'' \<in> set ident then setNestedValue microtext ident v
            else prop_set microtext ident v) of
        Inl e \<Rightarrow> Inl e
      | Inr microtext' \<Rightarrow>
     (case prop_set frontmatter1 ''microtext'' microtext' of
        Inl e \<Rightarrow> Inl e
      | Inr frontmatter2 \<Rightarrow>
     (case write_matter E fs filePath mdxBody frontmatter2 of
        Inl e \<Rightarrow> Inl e
      | Inr fs' \<Rightarrow> Inr (previous, fs')))))))"

text \<open>The two attempts of \<^verbatim>\<open>fs.realpath\<close>: the page file, then the index file of a
  directory of that name. The result is the path used and what it resolves to.\<close>

definition locate_page :: "'f env \<Rightarrow> string \<Rightarrow> (string \<times> string) option" where
  "locate_page E sp =
     (let filePath = join [PAGES_DIR E, sp @ ''.mdx'']
      in case realpath E filePath of
           Some realPath \<Rightarrow> Some (filePath, realPath)
         | None \<Rightarrow>
             (let filePath2 = join [PAGES_DIR E, sp, ''index.mdx'']
              in case realpath E filePath2 of
                   Some realPath \<Rightarrow> Some (filePath2, realPath)
                 | None \<Rightarrow> None))"

definition POST_microtext ::
  "'f env \<Rightarrow> 'f files \<Rightarrow> string option \<Rightarrow> string option \<Rightarrow> jsval option \<Rightarrow> response \<times> 'f files"
where
  "POST_microtext E fs pageSlug ident val =
     (case (ident, val) of
        (Some i, Some v) \<Rightarrow>
          if i = [] \<or> v = JUndefined then (json_error 400 ''Missing required fields: id, value'', fs)
          else
            (let slug = slug_of pageSlug
             in case locate_page E (safePath slug) of
                  None \<Rightarrow> (json_error 404 (''Page not found: '' @ slug), fs)
                | Some (filePath, realPath) \<Rightarrow>
                    if \<not> startsWith realPath (PAGES_DIR E) then (json_error 403 ''Invalid path'', fs)
                    else
                      (case update_microtext E fs filePath i v of
                         Inl e \<Rightarrow> (json_error 500 ''Failed to update microtext'', fs)
                       | Inr (previous, fs') \<Rightarrow>
                           (\<lparr>status = 200,
                             body = JObj [(''success'', JBool True),
                                          (''updated'', JObj [(''id'', JStr i), (''value'', v),
                                                              (''previousValue'', previous)])]\<rparr>,
                            fs')))
      | _ \<Rightarrow> (json_error 400 ''Missing required fields: id, value'', fs))"

section \<open>The instruction endpoint: POST /api/ai-edit\<close>

definition interpretInstruction ::
  "'f env \<Rightarrow> string \<Rightarrow> (string \<times> string) list \<Rightarrow> error + change list"
where
  "interpretInstruction E instruction microtext =
     (case api_key E of
        None \<Rightarrow> Inl (Error ''ANTHROPIC_API_KEY not configured'')
      | Some k \<Rightarrow>
          if k = [] then Inl (Error ''ANTHROPIC_API_KEY not configured'')
          else llm E instruction microtext)"

text \<open>\<^verbatim>\<open>for (const change of changes) setNestedValue(data.microtext, change.id, change.newValue)\<close>\<close>

fun apply_each :: "jsval \<Rightarrow> change list \<Rightarrow> error + jsval" where
  "apply_each microtext [] = Inr microtext"
| "apply_each microtext (c # cs) =
     (case setNestedValue microtext (change_id c) (JStr (newValue c)) of
        Inl e \<Rightarrow> Inl e
      | Inr microtext' \<Rightarrow> apply_each microtext' cs)"

definition page_file :: "'f env \<Rightarrow> string \<Rightarrow> string" where
  "page_file E pageSlug = join [join [cwd E, ''src'', ''pages''], pageSlug @ ''.mdx'']"

definition applyChanges :: "'f env \<Rightarrow> 'f files \<Rightarrow> string \<Rightarrow> change list \<Rightarrow> error + 'f files" where
  "applyChanges E fs pageSlug changes =
     (let filePath = page_file E pageSlug
      in
     (case readFile fs filePath of
        Inl e \<Rightarrow> Inl e
      | Inr content \<Rightarrow>
     (case parse_matter E content of
        Inl e \<Rightarrow> Inl e
      | Inr (data, mdxBody) \<Rightarrow>
     (case prop_get data ''microtext'' of
        Inl e \<Rightarrow> Inl e
      | Inr microtext \<Rightarrow>
          if falsy microtext then Inl (Error ''No microtext found in frontmatter'')
          else
     (case apply_each microtext changes of
        Inl e \<Rightarrow> Inl e
      | Inr microtext' \<Rightarrow>
     (case prop_set data ''microtext'' microtext' of
        Inl e \<Rightarrow> Inl e
      | Inr data' \<Rightarrow> write_matter E fs filePath mdxBody data'))))))"

text \<open>The text of \<^verbatim>\<open>error.message\<close>. The message of a TypeError or of a failure of the
  file system or a library is the engine's; it is represented by a tag.\<close>

fun error_message :: "error \<Rightarrow> string" where
  "error_message (Error m) = m"
| "error_message TypeError = ''TypeError''"
| "error_message IOError = ''IOError''"

definition change_json :: "change \<Rightarrow> jsval" where
  "change_json c =
     JObj [(''id'', JStr (change_id c)), (''oldValue'', JStr (oldValue c)),
           (''newValue'', JStr (newValue c)), (''reasoning'', JStr (reasoning c))]"

definition ai_failure :: "nat \<Rightarrow> string \<Rightarrow> response" where
  "ai_failure st msg = \<lparr>status = st, body = JObj [(''success'', JBool False), (''error'', JStr msg)]\<rparr>"

text \<open>The handler after its two early returns (missing fields, unreadable page): everything
  here runs inside the outer \<^verbatim>\<open>try\<close>. \<open>apply\<close> is the flag after its default
  \<^verbatim>\<open>apply = false\<close>.\<close>

definition ai_edit_page ::
  "'f env \<Rightarrow> 'f files \<Rightarrow> string \<Rightarrow> string \<Rightarrow> bool \<Rightarrow> 'f \<Rightarrow> error + (response \<times> 'f files)"
where
  "ai_edit_page E fs instruction pageSlug apply fileContent =
     (case parse_matter E fileContent of
        Inl e \<Rightarrow> Inl e
      | Inr (data, mdxBody) \<Rightarrow>
     (case prop_get data ''microtext'' of
        Inl e \<Rightarrow> Inl e
      | Inr microtext \<Rightarrow>
          if falsy microtext then Inr (ai_failure 400 ''No microtext in page frontmatter'', fs)
          else
     (case flattenMicrotext microtext [] of
        Inl e \<Rightarrow> Inl e
      | Inr flatMicrotext \<Rightarrow>
     (case interpretInstruction E instruction flatMicrotext of
        Inl e \<Rightarrow> Inl e
      | Inr changes \<Rightarrow>
          if changes = [] then
            Inr (\<lparr>status = 200,
                  body = JObj [(''success'', JBool True), (''changes'', JArr [] []),
                               (''applied'', JBool False), (''message'', JStr ''No changes needed'')]\<rparr>,
                 fs)
          else
     (case (if apply then applyChanges E fs pageSlug changes else Inr fs) of
        Inl e \<Rightarrow> Inl e
      | Inr fs' \<Rightarrow>
          Inr (\<lparr>status = 200,
                body = JObj [(''success'', JBool True),
                             (''changes'', JArr (map change_json changes) []),
                             (''applied'', JBool apply)]\<rparr>,
               fs'))))))"

definition POST_ai_edit ::
  "'f env \<Rightarrow> 'f files \<Rightarrow> string option \<Rightarrow> string option \<Rightarrow> bool option \<Rightarrow> response \<times> 'f files"
where
  "POST_ai_edit E fs instruction pageSlug apply =
     (case (instruction, pageSlug) of
        (Some ins, Some slug) \<Rightarrow>
          if ins = [] \<or> slug = [] then (ai_failure 400 ''Missing instruction or pageSlug'', fs)
          else
            (case readFile fs (page_file E slug) of
               Inl e \<Rightarrow> (ai_failure 404 (''Page not found: '' @ slug), fs)
             | Inr fileContent \<Rightarrow>
                 (case ai_edit_page E fs ins slug (case apply of None \<Rightarrow> False | Some a \<Rightarrow> a) fileContent of
                    Inl e \<Rightarrow> (ai_failure 500 (error_message e), fs)
                  | Inr r \<Rightarrow> r))
      | _ \<Rightarrow> (ai_failure 400 ''Missing instruction or pageSlug'', fs))"

section \<open>The array endpoint: POST /api/microtext-array\<close>

text \<open>\<^verbatim>\<open>getFilePath\<close>: a page whose real path does not start with the pages directory gives
  null, and so does a page that cannot be resolved; when the first \<^verbatim>\<open>realpath\<close> succeeds
  the index file is not tried.\<close>

definition getFilePath :: "'f env \<Rightarrow> string option \<Rightarrow> string option" where
  "getFilePath E pageSlug =
     (let sp = safePath (slug_of pageSlug);
          filePath = join [PAGES_DIR E, sp @ ''.mdx'']
      in case realpath E filePath of
           Some realPath \<Rightarrow> if startsWith realPath (PAGES_DIR E) then Some filePath else None
         | None \<Rightarrow>
             (let filePath2 = join [PAGES_DIR E, sp, ''index.mdx'']
              in case realpath E filePath2 of
                   Some realPath \<Rightarrow> if startsWith realPath (PAGES_DIR E) then Some filePath2 else None
                 | None \<Rightarrow> None))"

text \<open>
  The array that \<^verbatim>\<open>getNestedValue\<close> returns is the array inside the tree, so
  \<^verbatim>\<open>arr.push\<close> and \<^verbatim>\<open>arr.splice\<close> change the tree at the place where it was found.
  \<open>replace_found\<close> puts the changed array at that place: it follows the keys the way
  \<^verbatim>\<open>getNestedValue\<close> reads them.
\<close>

definition store :: "jsval \<Rightarrow> string \<Rightarrow> jsval \<Rightarrow> jsval" where
  "store c k v = (case prop_set c k v of Inr c' \<Rightarrow> c' | Inl e \<Rightarrow> c)"

fun replace_found :: "jsval \<Rightarrow> string list \<Rightarrow> jsval \<Rightarrow> jsval" where
  "replace_found current [] new = new"
| "replace_found current (key # rest) new =
     (case parseInt key of
        Some index \<Rightarrow>
          if isArray current
          then store current (num_key index) (replace_found (idx_get current index) rest new)
          else store current key (replace_found (own_prop current key) rest new)
      | None \<Rightarrow> store current key (replace_found (own_prop current key) rest new))"

definition quoted :: "string \<Rightarrow> string" where
  "quoted s = CHR 0x22 # s @ [CHR 0x22]"

definition default_item :: jsval where
  "default_item = JObj [(''title'', JStr ''New Item''), (''desc'', JStr ''Description'')]"

text \<open>The handler between reading the file and answering. The result is either the early
  return for an index out of bounds, or the fields of the answer with the files after the
  write.\<close>

definition splice1 :: "jsval list \<Rightarrow> nat \<Rightarrow> jsval list" where
  "splice1 xs i = take i xs @ drop (Suc i) xs"

definition modify_array ::
  "'f env \<Rightarrow> 'f files \<Rightarrow> string \<Rightarrow> string \<Rightarrow> string \<Rightarrow> int option \<Rightarrow> jsval option \<Rightarrow>
     error + (response \<times> 'f files)"
where
  "modify_array E fs filePath arrayPath action index template =
     (case readFile fs filePath of
        Inl e \<Rightarrow> Inl e
      | Inr fileContent \<Rightarrow>
     (case parse_matter E fileContent of
        Inl e \<Rightarrow> Inl e
      | Inr (frontmatter, mdxBody) \<Rightarrow>
     (case ensure_microtext frontmatter of
        Inl e \<Rightarrow> Inl e
      | Inr (frontmatter1, microtext) \<Rightarrow>
          let found = getNestedValueA microtext arrayPath;
              arr = (case found of JArr xs ps \<Rightarrow> xs | _ \<Rightarrow> []);
              named = (case found of JArr xs ps \<Rightarrow> ps | _ \<Rightarrow> [])
          in
          if action \<noteq> ''add'' \<and> (the index < 0 \<or> the index \<ge> int (length arr)) then
            Inr (json_error 400 (''Index '' @ num_key (the index) @ '' out of bounds (array length: ''
                                  @ num_key (int (length arr)) @ '')''), fs)
          else
            let newItem = (case template of None \<Rightarrow> default_item
                           | Some t \<Rightarrow> if falsy t then default_item else t);
                arr' = (if action = ''add'' then arr @ [newItem] else splice1 arr (nat (the index)));
                item = (if action = ''add'' then newItem else arr ! nat (the index));
                resultIndex = (if action = ''add'' then int (length arr') - 1 else the index);
                microtext1 = (if isArray found
                              then replace_found microtext (split_on CHR ''.'' arrayPath) (JArr arr' named)
                              else microtext)
            in
     (case setNestedValueA microtext1 arrayPath (JArr arr' named) of
        Inl e \<Rightarrow> Inl e
      | Inr microtext2 \<Rightarrow>
     (case prop_set frontmatter1 ''microtext'' microtext2 of
        Inl e \<Rightarrow> Inl e
      | Inr frontmatter2 \<Rightarrow>
     (case write_matter E fs filePath mdxBody frontmatter2 of
        Inl e \<Rightarrow> Inl e
      | Inr fs' \<Rightarrow>
          Inr (\<lparr>status = 200,
                body = JObj [(''success'', JBool True), (''action'', JStr action),
                             (''arrayPath'', JStr arrayPath), (''index'', JNum resultIndex),
                             (''item'', item), (''newLength'', JNum (int (length arr')))]\<rparr>,
               fs')))))))"

definition POST_microtext_array ::
  "'f env \<Rightarrow> 'f files \<Rightarrow> string option \<Rightarrow> string option \<Rightarrow> string option \<Rightarrow> int option \<Rightarrow>
     jsval option \<Rightarrow> response \<times> 'f files"
where
  "POST_microtext_array E fs pageSlug arrayPath action index template =
     (case (arrayPath, action) of
        (Some ap, Some act) \<Rightarrow>
          if ap = [] \<or> act = [] then (json_error 400 ''Missing required fields: arrayPath, action'', fs)
          else if act \<noteq> ''add'' \<and> act \<noteq> ''remove'' then
            (json_error 400 (''action must be '' @ quoted ''add'' @ '' or '' @ quoted ''remove''), fs)
          else if act = ''remove'' \<and> index = None then
            (json_error 400 ''index is required for remove action'', fs)
          else
            (case getFilePath E pageSlug of
               None \<Rightarrow>
                 (json_error 404 (''Page not found: '' @
                    (case pageSlug of None \<Rightarrow> ''undefined'' | Some s \<Rightarrow> s)), fs)
             | Some filePath \<Rightarrow>
                 (case modify_array E fs filePath ap act index template of
                    Inl e \<Rightarrow> (json_error 500 ''Failed to modify array'', fs)
                  | Inr r \<Rightarrow> r))
      | _ \<Rightarrow> (json_error 400 ''Missing required fields: arrayPath, action'', fs))"

section \<open>The publish gate: POST /api/publish\<close>

text \<open>
  Version control is reached through \<^verbatim>\<open>execAsync(command)\<close> only. The shell is the
  parameter \<open>run\<close>: given the commands already executed during the call and a new
  command, it gives that command's standard output, or the message of the error it is
  rejected with. The handler returns its answer and the commands it has executed, in
  order. \<open>now\<close> is \<^verbatim>\<open>new Date().toISOString()\<close>; \<open>message\<close> is the field of the request
  body, \<open>None\<close> when the body has none or is not JSON.
\<close>

definition trim :: "string \<Rightarrow> string" where
  "trim s = rev (dropWhile is_ws (rev (dropWhile is_ws s)))"

definition status_cmd :: string where
  "status_cmd = ''git status --porcelain src/pages/''"

definition add_cmd :: string where
  "add_cmd = ''git add src/pages/''"

text \<open>\<^verbatim>\<open>message.replace(/"/g, '\\"')\<close> inside \<^verbatim>\<open>git commit -m "..."\<close>.\<close>

definition escape_quotes :: "string \<Rightarrow> string" where
  "escape_quotes m = concat (map (\<lambda>c. if c = CHR 0x22 then [CHR 0x5C, CHR 0x22] else [c]) m)"

definition commit_cmd :: "string \<Rightarrow> string" where
  "commit_cmd m = ''git commit -m '' @ quoted (escape_quotes m)"

definition publish_failure :: "string \<Rightarrow> response" where
  "publish_failure errorMessage = json_error 500 (''Publish failed: '' @ errorMessage)"

definition POST_publish ::
  "(string list \<Rightarrow> string \<Rightarrow> string + string) \<Rightarrow> string \<Rightarrow> string option \<Rightarrow> response \<times> string list"
where
  "POST_publish run now message =
     (let msg = (case message of None \<Rightarrow> ''Content update '' @ now
                 | Some m \<Rightarrow> if m = [] then ''Content update '' @ now else m)
      in
      case run [] status_cmd of
        Inl err \<Rightarrow> (publish_failure err, [status_cmd])
      | Inr st \<Rightarrow>
          if trim st = [] then
            (\<lparr>status = 200,
              body = JObj [(''success'', JBool True), (''message'', JStr ''No changes to publish'')]\<rparr>,
             [status_cmd])
          else
            (case run [status_cmd] add_cmd of
               Inl err \<Rightarrow> (publish_failure err, [status_cmd, add_cmd])
             | Inr out1 \<Rightarrow>
                 (case run [status_cmd, add_cmd] (commit_cmd msg) of
                    Inl err \<Rightarrow> (publish_failure err, [status_cmd, add_cmd, commit_cmd msg])
                  | Inr out2 \<Rightarrow>
                      (let files = length (split_on CHR 0x0A (trim st))
                       in (\<lparr>status = 200,
                            body = JObj [(''success'', JBool True),
                                         (''message'', JStr (''Published '' @ num_key (int files) @ '' change(s)'')),
                                         (''filesChanged'', JNum (int files))]\<rparr>,
                           [status_cmd, add_cmd, commit_cmd msg])))))"

text \<open>A status output that lists the changed files one per line: every line ends with a line
  feed, has none inside and is not blank.\<close>

definition status_lines :: "string list \<Rightarrow> string" where
  "status_lines ls = concat (map (\<lambda>l. l @ [CHR 0x0A]) ls)"

definition file_line :: "string \<Rightarrow> bool" where
  "file_line l = (CHR 0x0A \<notin> set l \<and> (\<exists>c \<in> set l. \<not> is_ws c))"

text \<open>The commits a call has performed: the \<^verbatim>\<open>git commit\<close> commands among those executed.\<close>

definition commits :: "string list \<Rightarrow> string list" where
  "commits cmds = filter (\<lambda>c. startsWith c ''git commit'') cmds"

section \<open>The draft cache and the sync engine\<close>

text \<open>
  \<^verbatim>\<open>localStorage\<close> is a list of keys with their stored strings, in the order of
  \<^verbatim>\<open>localStorage.key(i)\<close>. \<^verbatim>\<open>JSON.parse\<close> is the parameter \<open>parse\<close> (\<open>None\<close> when it
  throws). One run of the sync sends at most one request per draft, so the server is the
  parameter \<open>fetch\<close> from the request (page, id, value) to what comes back: a network
  failure, or a response with its status and its body as JSON (\<open>None\<close> when
  \<^verbatim>\<open>res.json()\<close> throws).
\<close>

type_synonym storage = "(string \<times> string) list"

datatype fetched = NetworkFailure | Response nat "jsval option"

record sync_result =
  success :: bool
  synced :: nat
  errors :: "string list"

definition PREFIX :: string where
  "PREFIX = ''vibe:''"

definition getKey :: "string \<Rightarrow> string \<Rightarrow> string" where
  "getKey pageSlug ident = PREFIX @ pageSlug @ '':'' @ ident"

definition getItem :: "storage \<Rightarrow> string \<Rightarrow> string option" where
  "getItem ls key = map_of ls key"

definition removeItem :: "storage \<Rightarrow> string \<Rightarrow> storage" where
  "removeItem ls key = filter (\<lambda>kv. fst kv \<noteq> key) ls"

definition clearDraft :: "storage \<Rightarrow> string \<Rightarrow> string \<Rightarrow> storage" where
  "clearDraft ls pageSlug ident = removeItem ls (getKey pageSlug ident)"

text \<open>The loop of \<^verbatim>\<open>getPageDrafts\<close> over the keys of the storage \<open>ls\<close>. For the id
  \<^verbatim>\<open>__proto__\<close> the assignment \<^verbatim>\<open>drafts[id] = JSON.parse(stored)\<close> sets the prototype
  of \<open>drafts\<close> and adds no key, so \<^verbatim>\<open>Object.keys\<close> never lists that draft.\<close>

fun drafts_loop ::
  "(string \<Rightarrow> jsval option) \<Rightarrow> storage \<Rightarrow> string \<Rightarrow> string list \<Rightarrow> (string \<times> jsval) list \<Rightarrow> (string \<times> jsval) list"
where
  "drafts_loop parse ls prefix [] drafts = drafts"
| "drafts_loop parse ls prefix (key # keys) drafts =
     (if startsWith key prefix then
        (case getItem ls key of
           None \<Rightarrow> drafts_loop parse ls prefix keys drafts
         | Some stored \<Rightarrow>
             if stored = [] then drafts_loop parse ls prefix keys drafts
             else (case parse stored of
                     None \<Rightarrow> drafts_loop parse ls prefix keys drafts
                   | Some d \<Rightarrow>
                       if drop (length prefix) key = ''__proto__''
                       then drafts_loop parse ls prefix keys drafts
                       else drafts_loop parse ls prefix keys
                              (obj_put drafts (drop (length prefix) key) d)))
      else drafts_loop parse ls prefix keys drafts)"

definition getPageDrafts :: "(string \<Rightarrow> jsval option) \<Rightarrow> storage \<Rightarrow> string \<Rightarrow> (string \<times> jsval) list" where
  "getPageDrafts parse ls pageSlug = drafts_loop parse ls (PREFIX @ pageSlug @ '':'') (map fst ls) []"

text \<open>\<^verbatim>\<open>`${x}`\<close> for a value: the string itself, the decimal form of a number, the elements
  of an array joined with commas (null and undefined as empty strings).\<close>

function js_to_string :: "jsval \<Rightarrow> string"
and join_items :: "jsval list \<Rightarrow> string"
where
  "js_to_string v =
     (case v of
        JUndefined \<Rightarrow> ''undefined''
      | JNull \<Rightarrow> ''null''
      | JBool b \<Rightarrow> (if b then ''true'' else ''false'')
      | JNum n \<Rightarrow> num_key n
      | JStr s \<Rightarrow> s
      | JArr xs ps \<Rightarrow> join_items xs
      | JObj kvs \<Rightarrow> ''[object Object]'')"
| "join_items [] = []"
| "join_items (x # xs) =
     (if nullish x then [] else js_to_string x) @ (if xs = [] then [] else '','' @ join_items xs)"
  by pat_completeness auto
termination
  by (relation "measure (\<lambda>x. case x of Inl v \<Rightarrow> size v | Inr xs \<Rightarrow> size_list size xs)") auto

text \<open>One iteration of the loop of \<^verbatim>\<open>syncDraftsToServer\<close>: the \<^verbatim>\<open>try\<close> block gives the
  message pushed to \<open>errors\<close>, or nothing when the draft was sent and cleared, and the
  request it has sent, if it got that far (reading \<^verbatim>\<open>drafts[id].value\<close> throws for a
  draft that is null).\<close>

type_synonym request = "string \<times> string \<times> jsval"

definition sync_attempt ::
  "(request \<Rightarrow> fetched) \<Rightarrow> (string \<times> jsval) list \<Rightarrow> string \<Rightarrow> string \<Rightarrow> string option \<times> request list"
where
  "sync_attempt fetch drafts pageSlug ident =
     (case prop_get (obj_get drafts ident) ''value'' of
        Inl e \<Rightarrow> (Some (ident @ '': Network error''), [])
      | Inr v \<Rightarrow>
          (case fetch (pageSlug, ident, v) of
             NetworkFailure \<Rightarrow> (Some (ident @ '': Network error''), [(pageSlug, ident, v)])
           | Response st data \<Rightarrow>
               if 200 \<le> st \<and> st \<le> 299 then (None, [(pageSlug, ident, v)])
               else (case data of
                       None \<Rightarrow> (Some (ident @ '': Network error''), [(pageSlug, ident, v)])
                     | Some d \<Rightarrow>
                         (case prop_get d ''error'' of
                            Inl e \<Rightarrow> (Some (ident @ '': Network error''), [(pageSlug, ident, v)])
                          | Inr err \<Rightarrow>
                              (Some (ident @ '': '' @ (if falsy err then ''Failed'' else js_to_string err)),
                               [(pageSlug, ident, v)])))))"

text \<open>The loop: the storage, the count \<open>synced\<close>, the list \<open>errors\<close> and the requests
  sent so far.\<close>

fun sync_loop ::
  "(request \<Rightarrow> fetched) \<Rightarrow> (string \<times> jsval) list \<Rightarrow> string \<Rightarrow> string list \<Rightarrow>
     storage \<Rightarrow> nat \<Rightarrow> string list \<Rightarrow> request list \<Rightarrow> storage \<times> nat \<times> string list \<times> request list"
where
  "sync_loop fetch drafts pageSlug [] ls n errs sent = (ls, n, errs, sent)"
| "sync_loop fetch drafts pageSlug (ident # ids) ls n errs sent =
     (case sync_attempt fetch drafts pageSlug ident of
        (None, reqs) \<Rightarrow>
          sync_loop fetch drafts pageSlug ids (clearDraft ls pageSlug ident) (Suc n) errs (sent @ reqs)
      | (Some msg, reqs) \<Rightarrow>
          sync_loop fetch drafts pageSlug ids ls n (errs @ [msg]) (sent @ reqs))"

text \<open>The result of \<^verbatim>\<open>syncDraftsToServer\<close>, the storage after it and the requests it has
  sent, in order.\<close>

definition syncDraftsToServer ::
  "(string \<Rightarrow> jsval option) \<Rightarrow> (request \<Rightarrow> fetched) \<Rightarrow> storage \<Rightarrow> string \<Rightarrow>
     sync_result \<times> storage \<times> request list"
where
  "syncDraftsToServer parse fetch ls pageSlug =
     (let drafts = getPageDrafts parse ls pageSlug;
          ids = map fst drafts
      in if ids = [] then (\<lparr>success = True, synced = 0, errors = []\<rparr>, ls, [])
         else (case sync_loop fetch drafts pageSlug ids ls 0 [] [] of
                 (ls', n, errs, sent) \<Rightarrow>
                   (\<lparr>success = (errs = []), synced = n, errors = errs\<rparr>, ls', sent)))"

section \<open>A concrete environment\<close>

text \<open>An environment to evaluate the endpoints in: a file content is the pair of front
  matter data and body it parses to, every path resolves to itself, and the text
  generation service proposes one change, of \<open>headline\<close> from \<open>Z\<close> to \<open>B\<close>.\<close>

definition demo_env :: "(jsval \<times> string) env" where
  "demo_env =
     \<lparr>cwd = ''/app'', realpath = Some, matter = Some,
      stringify = (\<lambda>mdxBody data. Some (data, mdxBody)),
      api_key = Some ''key'',
      llm = (\<lambda>instruction flat.
               Inr [\<lparr>change_id = ''headline'', oldValue = ''Z'', newValue = ''B'',
                     reasoning = ''shorter''\<rparr>])\<rparr>"

definition demo_page :: "jsval \<times> string" where
  "demo_page =
     (JObj [(''title'', JStr ''Home''),
            (''microtext'', JObj [(''headline'', JStr ''A''),
                                  (''features'', JArr [JStr ''f0'', JStr ''f1'', JStr ''f2''] [])])],
      ''# Body'')"

definition demo_files :: "(jsval \<times> string) files" where
  "demo_files = [''/app/src/pages/home.mdx'' \<mapsto> demo_page, ''/app/notes.mdx'' \<mapsto> demo_page]"

text \<open>A shell in which \<^verbatim>\<open>git status\<close> reports one modified and one untracked page and
  every other command succeeds silently.\<close>

definition demo_run :: "string list \<Rightarrow> string \<Rightarrow> string + string" where
  "demo_run history cmd =
     (if cmd = status_cmd then Inr '' M src/pages/home.mdx\<newline>?? src/pages/new.mdx\<newline>''
      else Inr [])"

text \<open>The ids of the pending drafts of a page, in the order in which the sync goes through
  them; the draft and the value stored for an id; and what it means that the write of a
  draft succeeds: the server answers the request for it with a status from 200 to 299.\<close>

definition pending_ids :: "(string \<Rightarrow> jsval option) \<Rightarrow> storage \<Rightarrow> string \<Rightarrow> string list" where
  "pending_ids parse ls pageSlug = map fst (getPageDrafts parse ls pageSlug)"

definition draft_of :: "(string \<Rightarrow> jsval option) \<Rightarrow> storage \<Rightarrow> string \<Rightarrow> string \<Rightarrow> jsval" where
  "draft_of parse ls pageSlug ident = obj_get (getPageDrafts parse ls pageSlug) ident"

definition draft_request :: "(string \<Rightarrow> jsval option) \<Rightarrow> storage \<Rightarrow> string \<Rightarrow> string \<Rightarrow> request" where
  "draft_request parse ls pageSlug ident =
     (pageSlug, ident, own_prop (draft_of parse ls pageSlug ident) ''value'')"

definition accepted :: "fetched \<Rightarrow> bool" where
  "accepted r = (case r of NetworkFailure \<Rightarrow> False | Response st data \<Rightarrow> 200 \<le> st \<and> st \<le> 299)"

definition write_succeeds ::
  "(string \<Rightarrow> jsval option) \<Rightarrow> (request \<Rightarrow> fetched) \<Rightarrow> storage \<Rightarrow> string \<Rightarrow> string \<Rightarrow> bool"
where
  "write_succeeds parse fetch ls pageSlug ident =
     (\<not> nullish (draft_of parse ls pageSlug ident) \<and>
      accepted (fetch (draft_request parse ls pageSlug ident)))"

text \<open>A storage with three valid drafts of the page \<open>home\<close>, one entry that does not parse
  and a draft of another page; a server that refuses the id \<open>sub\<close>.\<close>

definition demo_parse :: "string \<Rightarrow> jsval option" where
  "demo_parse s = (if s = ''bad'' then None else Some (JObj [(''value'', JStr s), (''timestamp'', JNum 1)]))"

definition demo_storage :: storage where
  "demo_storage =
     [(''vibe:home:hero.headline'', ''C''), (''vibe:home:x'', ''bad''), (''vibe:other:y'', ''Y''),
      (''vibe:home:2'', ''two''), (''vibe:home:sub'', ''S'')]"

definition demo_fetch :: "string \<times> string \<times> jsval \<Rightarrow> fetched" where
  "demo_fetch req =
     (case req of (p, i, v) \<Rightarrow>
        if i = ''sub'' then Response 404 (Some (JObj [(''error'', JStr ''Page not found: home'')]))
        else Response 200 None)"

text \<open>A key of the storage holds a draft that \<^verbatim>\<open>getPageDrafts\<close> accepts: a non-empty string
  that parses.\<close>

definition valid_draft :: "(string \<Rightarrow> jsval option) \<Rightarrow> storage \<Rightarrow> string \<Rightarrow> bool" where
  "valid_draft parse ls key =
     (\<exists>stored d. getItem ls key = Some stored \<and> stored \<noteq> [] \<and> parse stored = Some d)"


text \<open>The front matter library writes what it reads: parsing a file content that
  \<^verbatim>\<open>matter.stringify\<close> produced gives back the data and the body it was produced from.\<close>

definition lossless :: "'f env \<Rightarrow> bool" where
  "lossless E = (\<forall>b d f. stringify E b d = Some f \<longrightarrow> matter E f = Some (d, b))"

section \<open>Properties of the path addressor\<close>

subsection \<open>Reading back an assigned property\<close>

lemma map_of_replace_key:
  "k \<in> fst ` set kvs \<Longrightarrow> map_of (replace_key k v kvs) k = Some v"
  by (induction kvs) force+

lemma map_of_insert_index:
  "k \<notin> fst ` set kvs \<Longrightarrow> map_of (insert_index i k v kvs) k = Some v"
  by (induction kvs) (auto split: option.splits)

lemma map_of_obj_put_same: "map_of (obj_put kvs k v) k = Some v"
proof (cases "k \<in> fst ` set kvs")
  case True
  then show ?thesis by (simp add: obj_put_def map_of_replace_key)
next
  case False
  then have "map_of kvs k = None" by (simp add: map_of_eq_None_iff)
  with False show ?thesis
    by (simp add: obj_put_def map_of_insert_index map_add_def split: option.splits)
qed

lemma obj_get_obj_put_same: "obj_get (obj_put kvs k v) k = v"
  by (simp add: obj_get_def map_of_obj_put_same)

lemma arr_get_arr_put_same: "arr_get (arr_put xs i v) i = v"
  by (auto simp: arr_get_def arr_put_def nth_append)

lemma own_prop_prop_set_same: "prop_set c k v = Inr c' \<Longrightarrow> own_prop c' k = v"
  by (cases c) (auto simp: obj_get_obj_put_same arr_get_arr_put_same split: option.splits)

subsection \<open>Kinds of containers\<close>

lemma prop_set_kind:
  "prop_set c k v = Inr c' \<Longrightarrow> isArray c' = isArray c \<and> isObject c' = isObject c"
  by (cases c) (auto split: option.splits)

lemma assign_last_kind:
  "assign_last c k v = Inr c' \<Longrightarrow> isArray c' = isArray c \<and> isObject c' = isObject c"
  by (auto simp: assign_last_def idx_set_def dest: prop_set_kind split: option.splits if_splits)

lemma setNestedParts_kind:
  "keeps_kind final \<Longrightarrow> setNestedParts final c parts v = Inr c' \<Longrightarrow>
     isArray c' = isArray c \<and> isObject c' = isObject c"
proof (induction final c parts v arbitrary: c' rule: setNestedParts.induct)
  case (1 final current v)
  then show ?case by simp
next
  case (2 final current lastKey v)
  then show ?case by (simp add: keeps_kind_def)
next
  case (3 final current key nextKey rest v)
  from "3.prems"(2) show ?case
    by (auto split: sum.splits if_splits dest!: prop_set_kind)
qed

lemma keeps_kind_assign_last: "keeps_kind assign_last"
  unfolding keeps_kind_def using assign_last_kind by blast

lemma keeps_kind_prop_set: "keeps_kind prop_set"
  unfolding keeps_kind_def using prop_set_kind by blast

lemma fresh_container_kind:
  "isArray (fresh_container k) = nextIsIndex k"
  "isObject (fresh_container k) = (\<not> nextIsIndex k)"
  by (simp_all add: fresh_container_def)

text \<open>
  Claim C8, as the code has it. One iteration of the loop of \<^verbatim>\<open>setNestedValue\<close> starts
  with \<open>current\<close> and the keys \<open>key\<close> and \<open>nextKey\<close>. When \<open>current[key]\<close> is
  undefined, the container created there is an Array exactly when
  \<^verbatim>\<open>parseInt(nextKey, 10)\<close> is a number and an Object otherwise; when \<open>current[key]\<close>
  exists, the walk goes through it and it is still an Array, or still an Object, after
  the call. This holds for both endings of the function, for paths whose segments are
  plain keys (no inherited member name, no \<^verbatim>\<open>length\<close>).
\<close>

theorem setNestedValue_container_kind:
  assumes "keeps_kind final"
      and "\<forall>k \<in> set (key # nextKey # rest). plain_key k"
      and "setNestedParts final current (key # nextKey # rest) v = Inr r"
  shows "(if own_prop current key = JUndefined
          then isArray (own_prop r key) = (parseInt nextKey \<noteq> None) \<and>
               isObject (own_prop r key) = (parseInt nextKey = None)
          else isArray (own_prop r key) = isArray (own_prop current key) \<and>
               isObject (own_prop r key) = isObject (own_prop current key))"
proof (cases "own_prop current key = JUndefined")
  case True
  from assms(3) True obtain cur' child' where
    b: "setNestedParts final (fresh_container nextKey) (nextKey # rest) v = Inr child'" and
    c: "prop_set cur' key child' = Inr r"
    by (auto simp: prop_get_def split: sum.splits if_splits)
  from c have "own_prop r key = child'" by (rule own_prop_prop_set_same)
  moreover from setNestedParts_kind[OF assms(1) b]
  have "isArray child' = nextIsIndex nextKey" "isObject child' = (\<not> nextIsIndex nextKey)"
    by (simp_all add: fresh_container_kind)
  ultimately show ?thesis using True by (simp add: nextIsIndex_def)
next
  case False
  from assms(3) False obtain child' where
    b: "setNestedParts final (own_prop current key) (nextKey # rest) v = Inr child'" and
    c: "prop_set current key child' = Inr r"
    by (auto simp: prop_get_def split: sum.splits if_splits)
  from c have "own_prop r key = child'" by (rule own_prop_prop_set_same)
  with setNestedParts_kind[OF assms(1) b] False show ?thesis by simp
qed

lemma set_a_0_c:
  "setNestedParts assign_last (JObj []) [''a'', ''0'', ''c''] (JStr ''v'') =
     Inr (JObj [(''a'', JArr [JObj [(''c'', JStr ''v'')]] [])])"
  by code_simp

lemma set_through_existing:
  "setNestedParts prop_set (JObj [(''a'', JObj [(''k'', JStr ''w'')])]) [''a'', ''7''] (JStr ''v'') =
     Inr (JObj [(''a'', JObj [(''7'', JStr ''v''), (''k'', JStr ''w'')])])"
  by code_simp

lemma plain_demo_keys:
  "plain_key ''a''" "plain_key ''0''" "plain_key ''c''" "plain_key ''7''"
  by code_simp+

theorem setNestedValue_container_kind_witness:
  "keeps_kind assign_last \<and> keeps_kind prop_set \<and>
   plain_key ''a'' \<and> plain_key ''0'' \<and> plain_key ''c'' \<and> plain_key ''7'' \<and>
   setNestedParts assign_last (JObj []) [''a'', ''0'', ''c''] (JStr ''v'') =
     Inr (JObj [(''a'', JArr [JObj [(''c'', JStr ''v'')]] [])]) \<and>
   isArray (own_prop (JObj [(''a'', JArr [JObj [(''c'', JStr ''v'')]] [])]) ''a'') \<and>
   setNestedParts prop_set (JObj [(''a'', JObj [(''k'', JStr ''w'')])]) [''a'', ''7''] (JStr ''v'') =
     Inr (JObj [(''a'', JObj [(''7'', JStr ''v''), (''k'', JStr ''w'')])]) \<and>
   isObject (own_prop (JObj [(''a'', JObj [(''7'', JStr ''v''), (''k'', JStr ''w'')])]) ''a'')"
proof -
  have p: "parseInt ''0'' \<noteq> None" by code_simp
  have u: "own_prop (JObj []) ''a'' = JUndefined" by code_simp
  have e: "own_prop (JObj [(''a'', JObj [(''k'', JStr ''w'')])]) ''a'' = JObj [(''k'', JStr ''w'')]"
    by code_simp
  have k1: "\<forall>k \<in> set [''a'', ''0'', ''c'']. plain_key k" using plain_demo_keys by simp
  have k2: "\<forall>k \<in> set [''a'', ''7'']. plain_key k" using plain_demo_keys by simp
  from setNestedValue_container_kind[OF keeps_kind_assign_last k1 set_a_0_c] p u
  have "isArray (own_prop (JObj [(''a'', JArr [JObj [(''c'', JStr ''v'')]] [])]) ''a'')"
    by simp
  moreover from setNestedValue_container_kind[OF keeps_kind_prop_set k2 set_through_existing] e
  have "isObject (own_prop (JObj [(''a'', JObj [(''7'', JStr ''v''), (''k'', JStr ''w'')])]) ''a'')"
    by simp
  ultimately show ?thesis
    using keeps_kind_assign_last keeps_kind_prop_set set_a_0_c set_through_existing plain_demo_keys
    by simp
qed

text \<open>
  The claim as the specification words it: a numeric segment gives an Array, any other
  segment an Object. The segment \<open>3d\<close> is not numeric, yet \<^verbatim>\<open>parseInt\<close> reads a 3 from
  it, and the container created for \<open>a\<close> is an Array (with three holes).
\<close>

theorem container_kind_counterexample:
  "\<not> numeric_segment ''3d'' \<and> plain_key ''a'' \<and> plain_key ''3d'' \<and>
   setNestedValue (JObj []) ''a.3d'' (JStr ''v'') =
     Inr (JObj [(''a'', JArr [JUndefined, JUndefined, JUndefined, JStr ''v''] [])]) \<and>
   isArray (own_prop (JObj [(''a'', JArr [JUndefined, JUndefined, JUndefined, JStr ''v''] [])]) ''a'') \<and>
   \<not> isObject (own_prop (JObj [(''a'', JArr [JUndefined, JUndefined, JUndefined, JStr ''v''] [])]) ''a'')"
  by code_simp

section \<open>The instruction endpoint\<close>

lemma demo_lossless: "lossless demo_env"
  by (simp add: lossless_def demo_env_def)

lemma demo_read: "readFile demo_files (page_file demo_env ''home'') = Inr demo_page"
  by code_simp

lemma demo_parse: "parse_matter demo_env demo_page = Inr (fst demo_page, snd demo_page)"
  by code_simp

lemma demo_mt:
  "prop_get (fst demo_page) ''microtext'' =
     Inr (JObj [(''headline'', JStr ''A''),
                (''features'', JArr [JStr ''f0'', JStr ''f1'', JStr ''f2''] [])])"
  by code_simp

lemma demo_flat:
  "flattenMicrotext (JObj [(''headline'', JStr ''A''),
                           (''features'', JArr [JStr ''f0'', JStr ''f1'', JStr ''f2''] [])]) [] =
     Inr [(''headline'', ''A''), (''features.0'', ''f0''), (''features.1'', ''f1''),
          (''features.2'', ''f2'')]"
  by code_simp

lemma demo_interpret:
  "interpretInstruction demo_env ''x'' flat =
     Inr [\<lparr>change_id = ''headline'', oldValue = ''Z'', newValue = ''B'', reasoning = ''shorter''\<rparr>]"
  by (simp add: interpretInstruction_def demo_env_def)

text \<open>
  Claim C10. When the \<^verbatim>\<open>apply\<close> flag of a request to the instruction endpoint is omitted
  or false, the files after the call are the files before it, whatever the answer is; and
  when the page can be read and the interpreter proposes changes, the answer carries
  exactly these changes with \<^verbatim>\<open>applied: false\<close>.
\<close>

theorem ai_edit_without_apply:
  assumes "apply = None \<or> apply = Some False"
  shows "snd (POST_ai_edit E fs instruction pageSlug apply) = fs \<and>
         (instruction = Some ins \<and> ins \<noteq> [] \<and> pageSlug = Some slug \<and> slug \<noteq> [] \<and>
          readFile fs (page_file E slug) = Inr f \<and> parse_matter E f = Inr (data, mdxBody) \<and>
          prop_get data ''microtext'' = Inr mt \<and> \<not> falsy mt \<and>
          flattenMicrotext mt [] = Inr flat \<and> interpretInstruction E ins flat = Inr cs \<and> cs \<noteq> []
          \<longrightarrow> fst (POST_ai_edit E fs instruction pageSlug apply) =
                \<lparr>status = 200,
                 body = JObj [(''success'', JBool True),
                              (''changes'', JArr (map change_json cs) []),
                              (''applied'', JBool False)]\<rparr>)"
proof
  show "snd (POST_ai_edit E fs instruction pageSlug apply) = fs"
    using assms
    by (auto simp: POST_ai_edit_def ai_edit_page_def
             split: option.splits sum.splits prod.splits if_splits)
next
  show "instruction = Some ins \<and> ins \<noteq> [] \<and> pageSlug = Some slug \<and> slug \<noteq> [] \<and>
          readFile fs (page_file E slug) = Inr f \<and> parse_matter E f = Inr (data, mdxBody) \<and>
          prop_get data ''microtext'' = Inr mt \<and> \<not> falsy mt \<and>
          flattenMicrotext mt [] = Inr flat \<and> interpretInstruction E ins flat = Inr cs \<and> cs \<noteq> []
          \<longrightarrow> fst (POST_ai_edit E fs instruction pageSlug apply) =
                \<lparr>status = 200,
                 body = JObj [(''success'', JBool True),
                              (''changes'', JArr (map change_json cs) []),
                              (''applied'', JBool False)]\<rparr>"
    using assms by (auto simp: POST_ai_edit_def ai_edit_page_def)
qed

theorem ai_edit_without_apply_witness:
  "snd (POST_ai_edit demo_env demo_files (Some ''x'') (Some ''home'') None) = demo_files \<and>
   fst (POST_ai_edit demo_env demo_files (Some ''x'') (Some ''home'') None) =
     \<lparr>status = 200,
      body = JObj [(''success'', JBool True),
                   (''changes'', JArr [JObj [(''id'', JStr ''headline''), (''oldValue'', JStr ''Z''),
                                             (''newValue'', JStr ''B''), (''reasoning'', JStr ''shorter'')]] []),
                   (''applied'', JBool False)]\<rparr>"
proof -
  have a: "(None :: bool option) = None \<or> (None :: bool option) = Some False" by simp
  note t = ai_edit_without_apply[OF a, of demo_env demo_files "Some ''x''" "Some ''home''"
      "''x''" "''home''" demo_page "fst demo_page" "snd demo_page"
      "JObj [(''headline'', JStr ''A''), (''features'', JArr [JStr ''f0'', JStr ''f1'', JStr ''f2''] [])]"
      "[(''headline'', ''A''), (''features.0'', ''f0''), (''features.1'', ''f1''), (''features.2'', ''f2'')]"
      "[\<lparr>change_id = ''headline'', oldValue = ''Z'', newValue = ''B'', reasoning = ''shorter''\<rparr>]"]
  from t have 1: "snd (POST_ai_edit demo_env demo_files (Some ''x'') (Some ''home'') None) = demo_files"
    by simp
  from t demo_read demo_parse demo_mt demo_flat demo_interpret
  have 2: "fst (POST_ai_edit demo_env demo_files (Some ''x'') (Some ''home'') None) =
     \<lparr>status = 200,
      body = JObj [(''success'', JBool True),
                   (''changes'', JArr (map change_json [\<lparr>change_id = ''headline'', oldValue = ''Z'', newValue = ''B'',
                     reasoning = ''shorter''\<rparr>]) []),
                   (''applied'', JBool False)]\<rparr>"
    by simp
  from 1 2 show ?thesis by (simp add: change_json_def)
qed

section \<open>The publish gate\<close>

lemma commits_status: "commits [status_cmd] = []"
  by (simp add: commits_def status_cmd_def startsWith_def)

lemma commits_all: "commits [status_cmd, add_cmd, commit_cmd m] = [commit_cmd m]"
  by (simp add: commits_def status_cmd_def add_cmd_def commit_cmd_def startsWith_def)

subsection \<open>Counting the lines of a status output\<close>

lemma length_split_on: "length (split_on d s) = Suc (length (filter (\<lambda>c. c = d) s))"
  by (induction s) (auto split: list.splits)

lemma lf_is_ws: "is_ws (CHR 0x0A)"
  by (simp add: is_ws_def)

lemma count_status_lines:
  "\<forall>l \<in> set ls. CHR 0x0A \<notin> set l \<Longrightarrow>
     length (filter (\<lambda>c. c = CHR 0x0A) (status_lines ls)) = length ls"
  by (induction ls) (auto simp: status_lines_def filter_empty_conv)

lemma status_lines_snoc: "status_lines (ls @ [l]) = status_lines ls @ l @ [CHR 0x0A]"
  by (simp add: status_lines_def)

lemma file_line_dropWhile:
  assumes "file_line l"
  shows "dropWhile is_ws (l @ ys) = dropWhile is_ws l @ ys" "file_line (dropWhile is_ws l)"
proof -
  from assms obtain c where c: "c \<in> set l" "\<not> is_ws c" by (auto simp: file_line_def)
  then show "dropWhile is_ws (l @ ys) = dropWhile is_ws l @ ys" by (simp add: dropWhile_append1)
  have "c \<in> set (dropWhile is_ws l)"
  proof -
    have "l = takeWhile is_ws l @ dropWhile is_ws l" by simp
    then have "c \<in> set (takeWhile is_ws l) \<or> c \<in> set (dropWhile is_ws l)"
      by (metis Un_iff c(1) set_append)
    moreover have "c \<notin> set (takeWhile is_ws l)" using c(2) by (auto dest: set_takeWhileD)
    ultimately show ?thesis by blast
  qed
  moreover have "CHR 0x0A \<notin> set (dropWhile is_ws l)"
    using assms by (auto simp: file_line_def dest: set_dropWhileD)
  ultimately show "file_line (dropWhile is_ws l)" using c(2) by (auto simp: file_line_def)
qed

lemma file_line_rev: "file_line l \<Longrightarrow> file_line (rev l)"
  by (simp add: file_line_def)

lemma trim_status_lines_count:
  assumes "ls \<noteq> []" "\<forall>l \<in> set ls. file_line l"
  shows "length (filter (\<lambda>c. c = CHR 0x0A) (trim (status_lines ls))) = length ls - 1"
proof -
  from assms(1) obtain l1 rest where ls: "ls = l1 # rest" by (cases ls) auto
  let ?l1 = "dropWhile is_ws l1"
  let ?ls = "?l1 # rest"
  have fl1: "file_line l1" using assms(2) ls by simp
  have d1: "dropWhile is_ws (status_lines ls) = status_lines ?ls"
    using file_line_dropWhile(1)[OF fl1] by (simp add: status_lines_def ls)
  have all: "\<forall>l \<in> set ?ls. file_line l"
    using assms(2) ls file_line_dropWhile(2)[OF fl1] by simp
  obtain front lastl where sn: "?ls = front @ [lastl]"
    by (metis list.distinct(1) rev_exhaust)
  then have fl: "file_line lastl" and ffront: "\<forall>l \<in> set front. file_line l"
    using all by (metis in_set_conv_decomp, metis Un_iff all set_append sn)
  have "rev (status_lines ?ls) = CHR 0x0A # rev lastl @ rev (status_lines front)"
    by (simp add: sn status_lines_snoc)
  then have "dropWhile is_ws (rev (status_lines ?ls)) =
             dropWhile is_ws (rev lastl) @ rev (status_lines front)"
    using lf_is_ws file_line_dropWhile(1)[OF file_line_rev[OF fl]] by simp
  then have t: "trim (status_lines ls) = status_lines front @ rev (dropWhile is_ws (rev lastl))"
    by (simp add: trim_def d1)
  have nolf: "CHR 0x0A \<notin> set (rev (dropWhile is_ws (rev lastl)))"
    using fl by (auto simp: file_line_def dest: set_dropWhileD)
  have "length (filter (\<lambda>c. c = CHR 0x0A) (status_lines front)) = length front"
    using ffront by (intro count_status_lines) (simp add: file_line_def)
  moreover have "length front = length ls - 1"
    using sn ls by (metis One_nat_def diff_Suc_1 length_Cons length_append_singleton)
  moreover have "filter (\<lambda>c. c = CHR 0x0A) (rev (dropWhile is_ws (rev lastl))) = []"
    using nolf by (auto simp: filter_empty_conv)
  ultimately show ?thesis by (simp add: t)
qed

lemma files_counted:
  assumes "trim (status_lines ls) \<noteq> []" "\<forall>l \<in> set ls. file_line l"
  shows "length (split_on (CHR 0x0A) (trim (status_lines ls))) = length ls"
proof -
  have "ls \<noteq> []" using assms(1) by (auto simp: status_lines_def trim_def)
  with trim_status_lines_count[OF this assms(2)] show ?thesis
    by (cases ls) (simp_all add: length_split_on)
qed

subsection \<open>No-op and commit\<close>

text \<open>
  Claim C5, with its first half as the code has it. When
  \<^verbatim>\<open>git status --porcelain src/pages/\<close> prints nothing but white space, the call
  executes no other command, so no commit, and answers
  \<^verbatim>\<open>{ success: true, message: 'No changes to publish' }\<close>: the answer has no
  \<^verbatim>\<open>filesChanged\<close> field. Otherwise, provided that staging and committing succeed, the
  call has executed the status query, one \<^verbatim>\<open>git add src/pages/\<close> and exactly one commit,
  and when the status output lists the changed files one per line, \<^verbatim>\<open>filesChanged\<close> is
  the number of these files.
\<close>

theorem publish_noop_or_one_commit:
  assumes "run [] status_cmd = Inr st"
  shows "(if trim st = [] then
            POST_publish run now message =
              (\<lparr>status = 200,
                body = JObj [(''success'', JBool True), (''message'', JStr ''No changes to publish'')]\<rparr>,
               [status_cmd]) \<and>
            commits (snd (POST_publish run now message)) = [] \<and>
            own_prop (body (fst (POST_publish run now message))) ''filesChanged'' = JUndefined
          else
            (run [status_cmd] add_cmd = Inr out1 \<and>
             run [status_cmd, add_cmd]
               (commit_cmd (case message of None \<Rightarrow> ''Content update '' @ now
                            | Some m \<Rightarrow> if m = [] then ''Content update '' @ now else m)) = Inr out2
             \<longrightarrow>
             snd (POST_publish run now message) =
               [status_cmd, add_cmd,
                commit_cmd (case message of None \<Rightarrow> ''Content update '' @ now
                            | Some m \<Rightarrow> if m = [] then ''Content update '' @ now else m)] \<and>
             length (commits (snd (POST_publish run now message))) = 1 \<and>
             status (fst (POST_publish run now message)) = 200 \<and>
             (st = status_lines files \<and> (\<forall>l \<in> set files. file_line l) \<longrightarrow>
                own_prop (body (fst (POST_publish run now message))) ''filesChanged'' =
                  JNum (int (length files)))))"
proof (cases "trim st = []")
  case True
  then show ?thesis using assms
    by (simp add: POST_publish_def commits_status obj_get_def array_index_def is_digit_def)
next
  case False
  have cnt: "st = status_lines files \<and> (\<forall>l \<in> set files. file_line l) \<longrightarrow>
             length (split_on (CHR 0x0A) (trim st)) = length files"
    using False files_counted by blast
  from False assms cnt show ?thesis
    by (auto simp: POST_publish_def Let_def commits_all obj_get_def)
qed

text \<open>
  The claim as the specification words it asks for a \<^verbatim>\<open>filesChanged\<close> count of 0 in the
  answer of a call that finds nothing to publish. With an empty status output the field
  is undefined, not 0.
\<close>

theorem publish_noop_counterexample:
  "own_prop (body (fst (POST_publish (\<lambda>h c. Inr []) ''2026-01-01T00:00:00.000Z'' None))) ''filesChanged'' = JUndefined \<and>
   own_prop (body (fst (POST_publish (\<lambda>h c. Inr []) ''2026-01-01T00:00:00.000Z'' None))) ''filesChanged'' \<noteq> JNum 0 \<and>
   snd (POST_publish (\<lambda>h c. Inr []) ''2026-01-01T00:00:00.000Z'' None) = [status_cmd]"
  by code_simp

theorem publish_noop_or_one_commit_witness:
  "POST_publish (\<lambda>h c. Inr []) ''t'' None =
     (\<lparr>status = 200,
       body = JObj [(''success'', JBool True), (''message'', JStr ''No changes to publish'')]\<rparr>,
      [status_cmd]) \<and>
   demo_run [] status_cmd = Inr (status_lines ['' M src/pages/home.mdx'', ''?? src/pages/new.mdx'']) \<and>
   file_line '' M src/pages/home.mdx'' \<and> file_line ''?? src/pages/new.mdx'' \<and>
   snd (POST_publish demo_run ''t'' (Some ''edit'')) = [status_cmd, add_cmd, commit_cmd ''edit''] \<and>
   length (commits (snd (POST_publish demo_run ''t'' (Some ''edit'')))) = 1 \<and>
   own_prop (body (fst (POST_publish demo_run ''t'' (Some ''edit'')))) ''filesChanged'' = JNum 2"
proof -
  have s1: "(\<lambda>(h :: string list) (c :: string). (Inr [] :: string + string)) [] status_cmd = Inr []"
    by simp
  have t1: "trim [] = []" by code_simp
  from publish_noop_or_one_commit[where run = "\<lambda>h c. Inr []" and st = "[]" and now = "''t''"
         and message = None] s1 t1
  have a: "POST_publish (\<lambda>h c. Inr []) ''t'' None =
     (\<lparr>status = 200,
       body = JObj [(''success'', JBool True), (''message'', JStr ''No changes to publish'')]\<rparr>,
      [status_cmd])"
    by simp
  have s2: "demo_run [] status_cmd = Inr (status_lines ['' M src/pages/home.mdx'', ''?? src/pages/new.mdx''])"
    by (simp add: demo_run_def status_lines_def)
  have f: "file_line '' M src/pages/home.mdx''" "file_line ''?? src/pages/new.mdx''"
    by code_simp+
  have t2: "trim (status_lines ['' M src/pages/home.mdx'', ''?? src/pages/new.mdx'']) \<noteq> []"
    by code_simp
  have r1: "demo_run [status_cmd] add_cmd = Inr []" by code_simp
  have r2: "demo_run [status_cmd, add_cmd] (commit_cmd ''edit'') = Inr []" by code_simp
  from publish_noop_or_one_commit[where run = demo_run
         and st = "status_lines ['' M src/pages/home.mdx'', ''?? src/pages/new.mdx'']" and now = "''t''"
         and message = "Some ''edit''" and ?out1.0 = "[]" and ?out2.0 = "[]"
         and files = "['' M src/pages/home.mdx'', ''?? src/pages/new.mdx'']"] s2 t2 f r1 r2
  have b: "snd (POST_publish demo_run ''t'' (Some ''edit'')) = [status_cmd, add_cmd, commit_cmd ''edit''] \<and>
   length (commits (snd (POST_publish demo_run ''t'' (Some ''edit'')))) = 1 \<and>
   own_prop (body (fst (POST_publish demo_run ''t'' (Some ''edit'')))) ''filesChanged'' = JNum 2"
    by (simp add: commits_all)
  from a b s2 f show ?thesis by (simp add: commits_all)
qed

section \<open>Path safety\<close>

text \<open>The field endpoint refuses a page whose real path does not start with the pages
  directory before it reads anything, and \<^verbatim>\<open>getFilePath\<close> gives a path only for such a
  page.\<close>

lemma POST_microtext_outside:
  assumes "ident = Some i" "i \<noteq> []" "val = Some v" "v \<noteq> JUndefined"
      and "locate_page E (safePath (slug_of pageSlug)) = Some (filePath, realPath)"
      and "\<not> startsWith realPath (PAGES_DIR E)"
  shows "POST_microtext E fs pageSlug ident val = (json_error 403 ''Invalid path'', fs)"
  using assms by (simp add: POST_microtext_def)

lemma getFilePath_inside:
  "getFilePath E pageSlug = Some filePath \<Longrightarrow>
     \<exists>realPath. realpath E filePath = Some realPath \<and> startsWith realPath (PAGES_DIR E)"
  by (auto simp: getFilePath_def Let_def split: option.splits if_splits)

text \<open>
  Claim C7 at the instruction endpoint. The endpoint joins the page slug to the pages
  directory without normalising it or resolving it: for the slug \<open>../../notes\<close> the file
  is \<open>/app/notes.mdx\<close>, outside \<open>/app/src/pages\<close>; it is read, and with
  \<^verbatim>\<open>apply: true\<close> it is rewritten, and the answer is a success.
\<close>

theorem ai_edit_escapes_pages_dir:
  "PAGES_DIR demo_env = ''/app/src/pages'' \<and>
   page_file demo_env ''../../notes'' = ''/app/notes.mdx'' \<and>
   \<not> startsWith ''/app/notes.mdx'' (PAGES_DIR demo_env) \<and>
   status (fst (POST_ai_edit demo_env demo_files (Some ''x'') (Some ''../../notes'') (Some True))) = 200 \<and>
   snd (POST_ai_edit demo_env demo_files (Some ''x'') (Some ''../../notes'') (Some True)) ''/app/notes.mdx'' =
     Some (JObj [(''title'', JStr ''Home''),
                 (''microtext'', JObj [(''headline'', JStr ''B''),
                                       (''features'', JArr [JStr ''f0'', JStr ''f1'', JStr ''f2''] [])])],
           ''# Body'') \<and>
   demo_files ''/app/notes.mdx'' =
     Some (JObj [(''title'', JStr ''Home''),
                 (''microtext'', JObj [(''headline'', JStr ''A''),
                                       (''features'', JArr [JStr ''f0'', JStr ''f1'', JStr ''f2''] [])])],
           ''# Body'')"
  by code_simp

section \<open>Keys of an object after an assignment\<close>

lemma map_fst_replace_key: "map fst (replace_key k v kvs) = map fst kvs"
  by (induction kvs) auto

lemma keys_replace_key: "fst ` set (replace_key k v kvs) = fst ` set kvs"
  using arg_cong[OF map_fst_replace_key, of set k v kvs] by simp

lemma set_insert_index: "set (insert_index i k v kvs) = insert (k, v) (set kvs)"
  by (induction kvs) (auto split: option.splits if_splits)

lemma keys_insert_index: "fst ` set (insert_index i k v kvs) = insert k (fst ` set kvs)"
  by (simp add: set_insert_index)

lemma keys_obj_put: "fst ` set (obj_put kvs k v) = insert k (fst ` set kvs)"
  by (auto simp: obj_put_def keys_replace_key keys_insert_index split: option.splits)

section \<open>The sync engine\<close>

subsection \<open>The pending drafts\<close>

lemma drafts_loop_keys:
  "fst ` set (drafts_loop parse ls prefix keys drafts) =
     fst ` set drafts \<union>
     {drop (length prefix) key | key. key \<in> set keys \<and> startsWith key prefix \<and>
        valid_draft parse ls key \<and> drop (length prefix) key \<noteq> ''__proto__''}"
proof (induction keys arbitrary: drafts)
  case Nil
  then show ?case by simp
next
  case (Cons key keys)
  show ?case
  proof (cases "startsWith key prefix \<and> valid_draft parse ls key \<and>
                drop (length prefix) key \<noteq> ''__proto__''")
    case True
    then obtain stored d where s: "getItem ls key = Some stored" "stored \<noteq> []" "parse stored = Some d"
      by (auto simp: valid_draft_def)
    with True have "drafts_loop parse ls prefix (key # keys) drafts =
        drafts_loop parse ls prefix keys (obj_put drafts (drop (length prefix) key) d)"
      by simp
    then show ?thesis using True by (auto simp: Cons.IH keys_obj_put)
  next
    case False
    then have "drafts_loop parse ls prefix (key # keys) drafts = drafts_loop parse ls prefix keys drafts"
      by (auto simp: valid_draft_def split: option.splits)
    then show ?thesis using False by (auto simp: Cons.IH)
  qed
qed

lemma startsWith_append: "startsWith key prefix \<longleftrightarrow> (\<exists>i. key = prefix @ i)"
  by (auto simp: startsWith_def) (metis append_take_drop_id)

lemma getKey_prefix: "getKey page i = (PREFIX @ page @ '':'') @ i"
  by (simp add: getKey_def)

lemma pending_ids_set:
  "set (pending_ids parse ls page) =
     {i. i \<noteq> ''__proto__'' \<and> getKey page i \<in> fst ` set ls \<and> valid_draft parse ls (getKey page i)}"
proof -
  let ?p = "PREFIX @ page @ '':''"
  have "set (pending_ids parse ls page) =
      {drop (length ?p) key | key. key \<in> set (map fst ls) \<and> startsWith key ?p \<and>
         valid_draft parse ls key \<and> drop (length ?p) key \<noteq> ''__proto__''}"
    unfolding pending_ids_def getPageDrafts_def
    using drafts_loop_keys[of parse ls ?p "map fst ls" "[]"] by simp
  also have "\<dots> = {i. i \<noteq> ''__proto__'' \<and> ?p @ i \<in> fst ` set ls \<and> valid_draft parse ls (?p @ i)}"
  proof (rule set_eqI)
    fix i
    show "i \<in> {drop (length ?p) key | key. key \<in> set (map fst ls) \<and> startsWith key ?p \<and>
                   valid_draft parse ls key \<and> drop (length ?p) key \<noteq> ''__proto__''} \<longleftrightarrow>
          i \<in> {i. i \<noteq> ''__proto__'' \<and> ?p @ i \<in> fst ` set ls \<and> valid_draft parse ls (?p @ i)}"
    proof
      assume "i \<in> {drop (length ?p) key | key. key \<in> set (map fst ls) \<and> startsWith key ?p \<and>
                   valid_draft parse ls key \<and> drop (length ?p) key \<noteq> ''__proto__''}"
      then obtain key where k: "i = drop (length ?p) key" "key \<in> set (map fst ls)"
          "startsWith key ?p" "valid_draft parse ls key" "drop (length ?p) key \<noteq> ''__proto__''"
        by blast
      from k(3) obtain j where "key = ?p @ j" unfolding startsWith_append by blast
      with k show "i \<in> {i. i \<noteq> ''__proto__'' \<and> ?p @ i \<in> fst ` set ls \<and> valid_draft parse ls (?p @ i)}"
        by simp
    next
      assume "i \<in> {i. i \<noteq> ''__proto__'' \<and> ?p @ i \<in> fst ` set ls \<and> valid_draft parse ls (?p @ i)}"
      then have "?p @ i \<in> set (map fst ls)" "valid_draft parse ls (?p @ i)"
          "startsWith (?p @ i) ?p" "i = drop (length ?p) (?p @ i)"
          "drop (length ?p) (?p @ i) \<noteq> ''__proto__''"
        by (simp_all add: startsWith_def)
      then show "i \<in> {drop (length ?p) key | key. key \<in> set (map fst ls) \<and> startsWith key ?p \<and>
                   valid_draft parse ls key \<and> drop (length ?p) key \<noteq> ''__proto__''}"
        by blast
    qed
  qed
  finally show ?thesis by (simp add: getKey_prefix)
qed

lemma getItem_filter:
  "key \<notin> K \<Longrightarrow> getItem (filter (\<lambda>kv. fst kv \<notin> K) ls) key = getItem ls key"
  by (induction ls) (auto simp: getItem_def)

lemma valid_draft_filter:
  "key \<notin> K \<Longrightarrow> valid_draft parse (filter (\<lambda>kv. fst kv \<notin> K) ls) key = valid_draft parse ls key"
  by (simp add: valid_draft_def getItem_filter)

lemma getKey_inj: "getKey page i = getKey page j \<longleftrightarrow> i = j"
  by (simp add: getKey_def)

lemma keys_filter_notin:
  "fst ` set (filter (\<lambda>kv. fst kv \<notin> K) ls) = fst ` set ls - K"
  by auto

subsection \<open>One attempt\<close>

text \<open>An attempt ends without a message exactly when the draft could be read and the server
  accepted the request for it; it sends that request whenever the draft could be read.\<close>

lemma sync_attempt_cleared:
  "fst (sync_attempt fetch drafts page i) = None \<longleftrightarrow>
     \<not> nullish (obj_get drafts i) \<and> accepted (fetch (page, i, own_prop (obj_get drafts i) ''value''))"
  by (auto simp: sync_attempt_def prop_get_def accepted_def
           split: fetched.splits option.splits sum.splits)

lemma sync_attempt_sent:
  "snd (sync_attempt fetch drafts page i) =
     (if nullish (obj_get drafts i) then [] else [(page, i, own_prop (obj_get drafts i) ''value'')])"
  by (auto simp: sync_attempt_def prop_get_def
           split: fetched.splits option.splits sum.splits)

lemma sync_attempt_message:
  "fst (sync_attempt fetch drafts page i) = Some msg \<Longrightarrow> \<exists>reason. msg = i @ '': '' @ reason"
  by (auto simp: sync_attempt_def split: sum.splits fetched.splits if_splits option.splits)

lemma sync_attempt_server_message:
  assumes "\<not> nullish (obj_get drafts i)"
      and "fetch (page, i, own_prop (obj_get drafts i) ''value'') = Response st (Some d)"
      and "\<not> (200 \<le> st \<and> st \<le> 299)"
      and "prop_get d ''error'' = Inr (JStr e)" "e \<noteq> []"
  shows "fst (sync_attempt fetch drafts page i) = Some (i @ '': '' @ e)"
proof -
  have "js_to_string (JStr e) = e" by simp
  with assms show ?thesis
    by (simp add: sync_attempt_def prop_get_def)
qed

lemma sync_attempt_network:
  assumes "\<not> nullish (obj_get drafts i)"
      and "fetch (page, i, own_prop (obj_get drafts i) ''value'') = NetworkFailure"
  shows "fst (sync_attempt fetch drafts page i) = Some (i @ '': Network error'')"
  using assms by (simp add: sync_attempt_def prop_get_def)

subsection \<open>The loop\<close>

lemma sync_loop_result:
  "sync_loop fetch drafts page ids ls n errs sent =
     (filter (\<lambda>kv. fst kv \<notin> getKey page ` {i \<in> set ids. fst (sync_attempt fetch drafts page i) = None}) ls,
      n + length (filter (\<lambda>i. fst (sync_attempt fetch drafts page i) = None) ids),
      errs @ map (\<lambda>i. the (fst (sync_attempt fetch drafts page i)))
                 (filter (\<lambda>i. fst (sync_attempt fetch drafts page i) \<noteq> None) ids),
      sent @ concat (map (\<lambda>i. snd (sync_attempt fetch drafts page i)) ids))"
proof (induction ids arbitrary: ls n errs sent)
  case Nil
  then show ?case by simp
next
  case (Cons i ids)
  obtain m reqs where a: "sync_attempt fetch drafts page i = (m, reqs)" by (cases "sync_attempt fetch drafts page i")
  show ?case
  proof (cases m)
    case None
    have "filter (\<lambda>kv. fst kv \<notin> getKey page ` {j \<in> set ids. fst (sync_attempt fetch drafts page j) = None})
            (clearDraft ls page i) =
          filter (\<lambda>kv. fst kv \<notin> getKey page ` {j \<in> set (i # ids). fst (sync_attempt fetch drafts page j) = None}) ls"
      using None a by (auto simp: clearDraft_def removeItem_def intro!: filter_cong)
    with None a show ?thesis by (simp add: Cons.IH)
  next
    case (Some msg)
    then have "{j \<in> set (i # ids). fst (sync_attempt fetch drafts page j) = None} =
               {j \<in> set ids. fst (sync_attempt fetch drafts page j) = None}"
      using a by auto
    with Some a show ?thesis by (simp add: Cons.IH)
  qed
qed

lemma concat_sent:
  "concat (map (\<lambda>i. if P i then [] else [f i]) ids) = map f (filter (\<lambda>i. \<not> P i) ids)"
  by (induction ids) auto

lemma attempt_cleared_pending:
  "fst (sync_attempt fetch (getPageDrafts parse ls page) page i) = None \<longleftrightarrow>
     write_succeeds parse fetch ls page i"
  by (simp add: sync_attempt_cleared write_succeeds_def draft_of_def draft_request_def)

lemma attempt_sent_pending:
  "snd (sync_attempt fetch (getPageDrafts parse ls page) page i) =
     (if nullish (draft_of parse ls page i) then [] else [draft_request parse ls page i])"
  by (simp add: sync_attempt_sent draft_of_def draft_request_def)

lemma sync_unfolded:
  "syncDraftsToServer parse fetch ls page =
     (\<lparr>success = (\<forall>i \<in> set (pending_ids parse ls page). write_succeeds parse fetch ls page i),
       synced = length (filter (write_succeeds parse fetch ls page) (pending_ids parse ls page)),
       errors = map (\<lambda>i. the (fst (sync_attempt fetch (getPageDrafts parse ls page) page i)))
                  (filter (\<lambda>i. \<not> write_succeeds parse fetch ls page i) (pending_ids parse ls page))\<rparr>,
      filter (\<lambda>kv. fst kv \<notin> getKey page `
                {i \<in> set (pending_ids parse ls page). write_succeeds parse fetch ls page i}) ls,
      map (draft_request parse ls page)
        (filter (\<lambda>i. \<not> nullish (draft_of parse ls page i)) (pending_ids parse ls page)))"
proof -
  let ?ids = "pending_ids parse ls page"
  let ?d = "getPageDrafts parse ls page"
  have ids: "map fst ?d = ?ids" by (simp add: pending_ids_def)
  have sent: "concat (map (\<lambda>i. snd (sync_attempt fetch ?d page i)) ?ids) =
      map (draft_request parse ls page) (filter (\<lambda>i. \<not> nullish (draft_of parse ls page i)) ?ids)"
    by (simp add: attempt_sent_pending concat_sent)
  have empty: "(filter (\<lambda>i. \<not> write_succeeds parse fetch ls page i) ?ids = []) \<longleftrightarrow>
      (\<forall>i \<in> set ?ids. write_succeeds parse fetch ls page i)"
    by (simp add: filter_empty_conv)
  show ?thesis
  proof (cases "?ids = []")
    case True
    then show ?thesis by (simp add: syncDraftsToServer_def Let_def ids)
  next
    case False
    then show ?thesis
      unfolding syncDraftsToServer_def Let_def ids
      by (simp add: sync_loop_result attempt_cleared_pending sent empty)
  qed
qed

lemma pending_after_sync:
  "set (pending_ids parse
          (filter (\<lambda>kv. fst kv \<notin> getKey page ` {i \<in> set (pending_ids parse ls page). W i}) ls) page) =
     {i \<in> set (pending_ids parse ls page). \<not> W i}"
proof -
  let ?K = "getKey page ` {i \<in> set (pending_ids parse ls page). W i}"
  have "\<And>i. getKey page i \<notin> ?K \<Longrightarrow>
      valid_draft parse (filter (\<lambda>kv. fst kv \<notin> ?K) ls) (getKey page i) = valid_draft parse ls (getKey page i)"
    by (rule valid_draft_filter)
  moreover have "\<And>i. getKey page i \<in> ?K \<longleftrightarrow> i \<in> set (pending_ids parse ls page) \<and> W i"
    by (auto simp: getKey_inj)
  ultimately show ?thesis
    unfolding pending_ids_set[of parse "filter (\<lambda>kv. fst kv \<notin> ?K) ls" page] keys_filter_notin
    by (auto simp: pending_ids_set)
qed

subsection \<open>Syncing the drafts of a page\<close>

text \<open>Claim C6. Let \<^verbatim>\<open>syncDraftsToServer\<close> run on a page, and then run again on the storage it
  left. A draft of the page is pending when \<^verbatim>\<open>getPageDrafts\<close> lists it, and its write
  succeeds when the draft is not null and the server answers the request for it
  (\<^verbatim>\<open>POST /api/microtext\<close> with the page, the id and the value of the draft) with a status
  from 200 to 299. Then the first run sends exactly one request for every pending draft that
  is not null, in the order of the pending ids, so one for every pending id when no draft
  is null, whatever the answers to the earlier ones. The storage it leaves is the
  storage without the keys of the drafts whose write succeeded: the key of a pending draft
  is still stored exactly when its write did not succeed, and the drafts pending afterwards
  are the failed ones. \<^verbatim>\<open>synced\<close> counts the successful writes; \<^verbatim>\<open>errors\<close> has one message
  per failed draft, which starts with its id and carries the error text of the server's
  answer when there is one; \<^verbatim>\<open>success\<close> says that no write failed. The second run sends
  requests only for ids whose write failed in the first, and both runs together remove
  only keys of drafts that were pending at the start.\<close>

theorem sync_clears_exactly_the_accepted:
  assumes "syncDraftsToServer parse fetch ls page = (r, ls', sent)"
      and "syncDraftsToServer parse fetch2 ls' page = (r2, ls2, sent2)"
  shows "sent = map (draft_request parse ls page)
                  (filter (\<lambda>i. \<not> nullish (draft_of parse ls page i)) (pending_ids parse ls page)) \<and>
         ((\<forall>i \<in> set (pending_ids parse ls page). \<not> nullish (draft_of parse ls page i)) \<longrightarrow>
            map (\<lambda>q. fst (snd q)) sent = pending_ids parse ls page) \<and>
         ls' = filter (\<lambda>kv. fst kv \<notin> getKey page `
                  {i \<in> set (pending_ids parse ls page). write_succeeds parse fetch ls page i}) ls \<and>
         (\<forall>i \<in> set (pending_ids parse ls page).
            (getKey page i \<in> fst ` set ls') = (\<not> write_succeeds parse fetch ls page i)) \<and>
         set (pending_ids parse ls' page) =
           {i \<in> set (pending_ids parse ls page). \<not> write_succeeds parse fetch ls page i} \<and>
         synced r = length (filter (write_succeeds parse fetch ls page) (pending_ids parse ls page)) \<and>
         length (errors r) =
           length (filter (\<lambda>i. \<not> write_succeeds parse fetch ls page i) (pending_ids parse ls page)) \<and>
         (\<forall>i \<in> set (pending_ids parse ls page).
            \<not> write_succeeds parse fetch ls page i \<longrightarrow> (\<exists>reason. i @ '': '' @ reason \<in> set (errors r))) \<and>
         (\<forall>i \<in> set (pending_ids parse ls page). \<forall>st d e.
            \<not> nullish (draft_of parse ls page i) \<and>
            fetch (draft_request parse ls page i) = Response st (Some d) \<and>
            \<not> (200 \<le> st \<and> st \<le> 299) \<and> prop_get d ''error'' = Inr (JStr e) \<and> e \<noteq> [] \<longrightarrow>
            i @ '': '' @ e \<in> set (errors r)) \<and>
         success r = (\<forall>i \<in> set (pending_ids parse ls page). write_succeeds parse fetch ls page i) \<and>
         set (map (\<lambda>q. fst (snd q)) sent2) \<subseteq>
           {i \<in> set (pending_ids parse ls page). \<not> write_succeeds parse fetch ls page i} \<and>
         fst ` set ls - fst ` set ls2 \<subseteq> getKey page ` set (pending_ids parse ls page)"
proof -
  let ?ids = "pending_ids parse ls page"
  let ?W = "write_succeeds parse fetch ls page"
  let ?d = "getPageDrafts parse ls page"
  let ?msg = "\<lambda>i. fst (sync_attempt fetch ?d page i)"
  from assms(1) have
    r: "r = \<lparr>success = (\<forall>i \<in> set ?ids. ?W i), synced = length (filter ?W ?ids),
             errors = map (\<lambda>i. the (?msg i)) (filter (\<lambda>i. \<not> ?W i) ?ids)\<rparr>" and
    ls': "ls' = filter (\<lambda>kv. fst kv \<notin> getKey page ` {i \<in> set ?ids. ?W i}) ls" and
    sent: "sent = map (draft_request parse ls page)
                    (filter (\<lambda>i. \<not> nullish (draft_of parse ls page i)) ?ids)"
    unfolding sync_unfolded by simp_all
  have all: "(\<forall>i \<in> set ?ids. \<not> nullish (draft_of parse ls page i)) \<longrightarrow>
      map (\<lambda>q. fst (snd q)) sent = ?ids"
  proof
    assume "\<forall>i \<in> set ?ids. \<not> nullish (draft_of parse ls page i)"
    then have "filter (\<lambda>i. \<not> nullish (draft_of parse ls page i)) ?ids = ?ids" by simp
    then show "map (\<lambda>q. fst (snd q)) sent = ?ids"
      by (simp add: sent draft_request_def comp_def)
  qed
  have stored: "\<forall>i \<in> set ?ids. (getKey page i \<in> fst ` set ls') = (\<not> ?W i)"
  proof
    fix i assume i: "i \<in> set ?ids"
    then have "getKey page i \<in> fst ` set ls" by (simp add: pending_ids_set)
    moreover have "getKey page i \<in> getKey page ` {i \<in> set ?ids. ?W i} \<longleftrightarrow> ?W i"
      using i by (auto simp: getKey_inj)
    ultimately show "(getKey page i \<in> fst ` set ls') = (\<not> ?W i)"
      unfolding ls' keys_filter_notin by simp
  qed
  have pending: "set (pending_ids parse ls' page) = {i \<in> set ?ids. \<not> ?W i}"
    unfolding ls' by (rule pending_after_sync)
  have reason: "\<forall>i \<in> set ?ids. \<not> ?W i \<longrightarrow> (\<exists>reason. i @ '': '' @ reason \<in> set (errors r))"
  proof (intro ballI impI)
    fix i assume i: "i \<in> set ?ids" "\<not> ?W i"
    then have "?msg i \<noteq> None" by (simp add: attempt_cleared_pending)
    then obtain msg where m: "?msg i = Some msg" by blast
    then obtain reason where "msg = i @ '': '' @ reason" using sync_attempt_message by blast
    moreover have "the (?msg i) \<in> set (errors r)" using i by (simp add: r)
    ultimately show "\<exists>reason. i @ '': '' @ reason \<in> set (errors r)" using m by auto
  qed
  have server: "\<forall>i \<in> set ?ids. \<forall>st d e.
      \<not> nullish (draft_of parse ls page i) \<and>
      fetch (draft_request parse ls page i) = Response st (Some d) \<and>
      \<not> (200 \<le> st \<and> st \<le> 299) \<and> prop_get d ''error'' = Inr (JStr e) \<and> e \<noteq> [] \<longrightarrow>
      i @ '': '' @ e \<in> set (errors r)"
  proof (intro ballI allI impI)
    fix i st d e
    assume i: "i \<in> set ?ids"
      and h: "\<not> nullish (draft_of parse ls page i) \<and>
        fetch (draft_request parse ls page i) = Response st (Some d) \<and>
        \<not> (200 \<le> st \<and> st \<le> 299) \<and> prop_get d ''error'' = Inr (JStr e) \<and> e \<noteq> []"
    then have "?msg i = Some (i @ '': '' @ e)"
      using sync_attempt_server_message[of ?d i fetch page st d e]
      by (simp add: draft_of_def draft_request_def)
    moreover have "\<not> ?W i" using h by (simp add: write_succeeds_def accepted_def)
    then have "the (?msg i) \<in> set (errors r)" using i by (simp add: r)
    ultimately show "i @ '': '' @ e \<in> set (errors r)" by simp
  qed
  have second: "syncDraftsToServer parse fetch2 ls' page =
      (\<lparr>success = (\<forall>i \<in> set (pending_ids parse ls' page). write_succeeds parse fetch2 ls' page i),
        synced = length (filter (write_succeeds parse fetch2 ls' page) (pending_ids parse ls' page)),
        errors = map (\<lambda>i. the (fst (sync_attempt fetch2 (getPageDrafts parse ls' page) page i)))
                   (filter (\<lambda>i. \<not> write_succeeds parse fetch2 ls' page i) (pending_ids parse ls' page))\<rparr>,
       filter (\<lambda>kv. fst kv \<notin> getKey page `
                {i \<in> set (pending_ids parse ls' page). write_succeeds parse fetch2 ls' page i}) ls',
       map (draft_request parse ls' page)
         (filter (\<lambda>i. \<not> nullish (draft_of parse ls' page i)) (pending_ids parse ls' page)))"
    by (rule sync_unfolded)
  have parts: "(r2, ls2, sent2) =
      (\<lparr>success = (\<forall>i \<in> set (pending_ids parse ls' page). write_succeeds parse fetch2 ls' page i),
        synced = length (filter (write_succeeds parse fetch2 ls' page) (pending_ids parse ls' page)),
        errors = map (\<lambda>i. the (fst (sync_attempt fetch2 (getPageDrafts parse ls' page) page i)))
                   (filter (\<lambda>i. \<not> write_succeeds parse fetch2 ls' page i) (pending_ids parse ls' page))\<rparr>,
       filter (\<lambda>kv. fst kv \<notin> getKey page `
                {i \<in> set (pending_ids parse ls' page). write_succeeds parse fetch2 ls' page i}) ls',
       map (draft_request parse ls' page)
         (filter (\<lambda>i. \<not> nullish (draft_of parse ls' page i)) (pending_ids parse ls' page)))"
    using assms(2)[symmetric] second by (rule trans)
  have ls2: "ls2 = filter (\<lambda>kv. fst kv \<notin> getKey page `
             {i \<in> set (pending_ids parse ls' page). write_succeeds parse fetch2 ls' page i}) ls'"
    by (rule conjunct1[OF conjunct2[OF parts[unfolded prod.inject]]])
  have sent2: "sent2 = map (draft_request parse ls' page)
                    (filter (\<lambda>i. \<not> nullish (draft_of parse ls' page i)) (pending_ids parse ls' page))"
    by (rule conjunct2[OF conjunct2[OF parts[unfolded prod.inject]]])
  have "map (\<lambda>q. fst (snd q)) (map (draft_request parse ls' page) xs) = xs" for xs
    by (induction xs) (simp_all add: draft_request_def)
  then have "map (\<lambda>q. fst (snd q)) sent2 =
      filter (\<lambda>i. \<not> nullish (draft_of parse ls' page i)) (pending_ids parse ls' page)"
    by (subst sent2) blast
  then have "set (map (\<lambda>q. fst (snd q)) sent2) \<subseteq> set (pending_ids parse ls' page)"
    by (metis filter_is_subset)
  then have retry: "set (map (\<lambda>q. fst (snd q)) sent2) \<subseteq> {i \<in> set ?ids. \<not> ?W i}"
    by (subst pending[symmetric])
  have k2: "fst ` set ls2 = fst ` set ls' - getKey page `
             {i \<in> set (pending_ids parse ls' page). write_succeeds parse fetch2 ls' page i}"
    by (subst ls2) (rule keys_filter_notin)
  have k1: "fst ` set ls' = fst ` set ls - getKey page ` {i \<in> set ?ids. ?W i}"
    by (subst ls') (rule keys_filter_notin)
  have sub: "set (pending_ids parse ls' page) \<subseteq> set ?ids"
    by (subst pending) (rule Collect_restrict)
  have kept: "fst ` set ls - fst ` set ls2 \<subseteq> getKey page ` set ?ids"
  proof
    fix k assume k: "k \<in> fst ` set ls - fst ` set ls2"
    show "k \<in> getKey page ` set ?ids"
    proof (cases "k \<in> fst ` set ls'")
      case True
      with k k2 have "k \<in> getKey page ` {i \<in> set (pending_ids parse ls' page). write_succeeds parse fetch2 ls' page i}"
        by blast
      then obtain i where "k = getKey page i" "i \<in> set (pending_ids parse ls' page)" by blast
      with sub show ?thesis by blast
    next
      case False
      with k k1 have "k \<in> getKey page ` {i \<in> set ?ids. ?W i}" by blast
      then show ?thesis by blast
    qed
  qed
  have r': "success r = (\<forall>i \<in> set ?ids. ?W i)" "synced r = length (filter ?W ?ids)"
    "length (errors r) = length (filter (\<lambda>i. \<not> ?W i) ?ids)"
    by (simp_all add: r)
  show ?thesis
    apply (intro conjI)
    apply (rule sent)
    apply (rule all)
    apply (rule ls')
    apply (rule stored)
    apply (rule pending)
    apply (rule r'(2))
    apply (rule r'(3))
    apply (rule reason)
    apply (rule server)
    apply (rule r'(1))
    apply (rule retry)
    apply (rule kept)
    done
qed

text \<open>The theorem on the demonstration storage, where the server refuses the id \<open>sub\<close>.\<close>

lemma demo_sync:
  "syncDraftsToServer demo_parse demo_fetch demo_storage ''home'' =
     (\<lparr>success = False, synced = 2, errors = [''sub: Page not found: home'']\<rparr>,
      [(''vibe:home:x'', ''bad''), (''vibe:other:y'', ''Y''), (''vibe:home:sub'', ''S'')],
      [(''home'', ''2'', JStr ''two''), (''home'', ''hero.headline'', JStr ''C''),
       (''home'', ''sub'', JStr ''S'')])"
  by code_simp

lemma demo_sync_again:
  "syncDraftsToServer demo_parse demo_fetch
     [(''vibe:home:x'', ''bad''), (''vibe:other:y'', ''Y''), (''vibe:home:sub'', ''S'')] ''home'' =
     (\<lparr>success = False, synced = 0, errors = [''sub: Page not found: home'']\<rparr>,
      [(''vibe:home:x'', ''bad''), (''vibe:other:y'', ''Y''), (''vibe:home:sub'', ''S'')],
      [(''home'', ''sub'', JStr ''S'')])"
  by code_simp

lemma demo_pending: "pending_ids demo_parse demo_storage ''home'' = [''2'', ''hero.headline'', ''sub'']"
  by code_simp

lemma demo_accepted:
  "write_succeeds demo_parse demo_fetch demo_storage ''home'' ''2''"
  "write_succeeds demo_parse demo_fetch demo_storage ''home'' ''hero.headline''"
  "\<not> write_succeeds demo_parse demo_fetch demo_storage ''home'' ''sub''"
  by code_simp+

theorem sync_clears_exactly_the_accepted_witness:
  "syncDraftsToServer demo_parse demo_fetch demo_storage ''home'' =
     (\<lparr>success = False, synced = 2, errors = [''sub: Page not found: home'']\<rparr>,
      [(''vibe:home:x'', ''bad''), (''vibe:other:y'', ''Y''), (''vibe:home:sub'', ''S'')],
      [(''home'', ''2'', JStr ''two''), (''home'', ''hero.headline'', JStr ''C''),
       (''home'', ''sub'', JStr ''S'')]) \<and>
   syncDraftsToServer demo_parse demo_fetch
     [(''vibe:home:x'', ''bad''), (''vibe:other:y'', ''Y''), (''vibe:home:sub'', ''S'')] ''home'' =
     (\<lparr>success = False, synced = 0, errors = [''sub: Page not found: home'']\<rparr>,
      [(''vibe:home:x'', ''bad''), (''vibe:other:y'', ''Y''), (''vibe:home:sub'', ''S'')],
      [(''home'', ''sub'', JStr ''S'')]) \<and>
   pending_ids demo_parse demo_storage ''home'' = [''2'', ''hero.headline'', ''sub''] \<and>
   write_succeeds demo_parse demo_fetch demo_storage ''home'' ''2'' \<and>
   write_succeeds demo_parse demo_fetch demo_storage ''home'' ''hero.headline'' \<and>
   \<not> write_succeeds demo_parse demo_fetch demo_storage ''home'' ''sub'' \<and>
   set (pending_ids demo_parse
          [(''vibe:home:x'', ''bad''), (''vibe:other:y'', ''Y''), (''vibe:home:sub'', ''S'')] ''home'') =
     {''sub''}"
proof -
  have "set (pending_ids demo_parse
          [(''vibe:home:x'', ''bad''), (''vibe:other:y'', ''Y''), (''vibe:home:sub'', ''S'')] ''home'') =
        {i \<in> set (pending_ids demo_parse demo_storage ''home'').
           \<not> write_succeeds demo_parse demo_fetch demo_storage ''home'' i}"
    using sync_clears_exactly_the_accepted[OF demo_sync demo_sync_again] by (elim conjE)
  also have "\<dots> = {''sub''}"
    unfolding demo_pending using demo_accepted by auto
  finally have "set (pending_ids demo_parse
          [(''vibe:home:x'', ''bad''), (''vibe:other:y'', ''Y''), (''vibe:home:sub'', ''S'')] ''home'') =
        {''sub''}" .
  with demo_sync demo_sync_again demo_pending demo_accepted show ?thesis
    by (intro conjI)
qed

section \<open>Numerals as keys\<close>

lemma digit_char_props:
  "d < 10 \<Longrightarrow> is_digit (digit_char d) \<and> digit_val (digit_char d) = int d \<and>
     (digit_char d = CHR ''0'' \<longleftrightarrow> d = 0) \<and> \<not> is_ws (digit_char d) \<and>
     digit_char d \<noteq> CHR ''-'' \<and> digit_char d \<noteq> CHR ''+''"
proof -
  assume "d < 10"
  then have "d \<in> {0,1,2,3,4,5,6,7,8,9}" by auto
  then show ?thesis
    by (elim insertE emptyE) (simp_all add: is_digit_def digit_val_def digit_char_def is_ws_def)
qed

lemma digits_val_append: "digits_val acc (xs @ ys) = digits_val (digits_val acc xs) ys"
  by (induction xs arbitrary: acc) auto

lemma dec_digits_props:
  "dec_digits n \<noteq> [] \<and> list_all is_digit (dec_digits n) \<and> digits_val 0 (dec_digits n) = int n \<and>
   (hd (dec_digits n) = CHR ''0'' \<longrightarrow> n = 0)"
proof (induction n rule: dec_digits.induct)
  case (1 n)
  show ?case
  proof (cases "n < 10")
    case True
    then show ?thesis using digit_char_props[of n] by (simp add: dec_digits.simps[of n])
  next
    case False
    then have ih: "dec_digits (n div 10) \<noteq> []" "list_all is_digit (dec_digits (n div 10))"
        "digits_val 0 (dec_digits (n div 10)) = int (n div 10)"
        "hd (dec_digits (n div 10)) = CHR ''0'' \<longrightarrow> n div 10 = 0"
      using 1 by auto
    have d: "n mod 10 < 10" by simp
    have eq: "dec_digits n = dec_digits (n div 10) @ [digit_char (n mod 10)]"
      using False by (simp add: dec_digits.simps[of n])
    have "n div 10 \<noteq> 0" using False by auto
    with ih eq digit_char_props[OF d] show ?thesis
      by (auto simp: digits_val_append zdiv_int zmod_int)
  qed
qed

lemma dec_digits_length_one: "length (dec_digits 0) = 1"
  by (simp add: dec_digits.simps[of 0])

lemma array_index_dec_digits:
  "n < 4294967295 \<Longrightarrow> array_index (dec_digits n) = Some n"
  using dec_digits_props[of n] dec_digits_length_one by (auto simp: array_index_def)

lemma takeWhile_all: "list_all P xs \<Longrightarrow> takeWhile P xs = xs"
  by (induction xs) auto

lemma is_digit_not_ws: "is_digit c \<Longrightarrow> \<not> is_ws c \<and> c \<noteq> CHR ''-'' \<and> c \<noteq> CHR ''+''"
  by (auto simp: is_digit_def is_ws_def)

lemma parseInt_digits:
  assumes "k \<noteq> []" "list_all is_digit k"
  shows "parseInt k = Some (digits_val 0 k)"
proof -
  from assms obtain c cs where k: "k = c # cs" by (cases k) auto
  with assms have c: "is_digit c" by simp
  then have "dropWhile is_ws k = k" using k is_digit_not_ws by simp
  moreover have "hd k \<noteq> CHR ''-''" "hd k \<noteq> CHR ''+''" using k c is_digit_not_ws by auto
  ultimately show ?thesis using assms
    by (simp add: parseInt_def Let_def takeWhile_all)
qed

lemma digit_val_nonneg: "is_digit c \<Longrightarrow> 0 \<le> digit_val c"
  by (simp add: is_digit_def digit_val_def)

lemma digits_val_nonneg: "0 \<le> acc \<Longrightarrow> list_all is_digit k \<Longrightarrow> 0 \<le> digits_val acc k"
proof (induction k arbitrary: acc)
  case Nil
  then show ?case by simp
next
  case (Cons c k)
  then have "0 \<le> 10 * acc + digit_val c" using digit_val_nonneg[of c] by simp
  with Cons show ?case by simp
qed

lemma array_index_parseInt:
  "array_index k = Some n \<Longrightarrow> parseInt k = Some (int n) \<and> n < 4294967295"
  using digits_val_nonneg[of 0 k]
  by (auto simp: array_index_def parseInt_digits split: if_splits)

lemma num_key_nat: "num_key (int n) = dec_digits n"
  by (simp add: num_key_def)

lemma parseInt_num_key_nat: "parseInt (num_key (int n)) = Some (int n)"
  using dec_digits_props[of n] by (simp add: num_key_nat parseInt_digits)

section \<open>Writing and reading along a path\<close>

subsection \<open>Assigning twice\<close>

lemma replace_key_twice: "replace_key k b (replace_key k a kvs) = replace_key k b kvs"
  by (induction kvs) auto

lemma replace_key_insert_index:
  "k \<notin> fst ` set kvs \<Longrightarrow> replace_key k b (insert_index i k a kvs) = insert_index i k b kvs"
  by (induction kvs) (auto split: option.splits)

lemma replace_key_append_new:
  "k \<notin> fst ` set kvs \<Longrightarrow> replace_key k b (kvs @ [(k, a)]) = kvs @ [(k, b)]"
  by (induction kvs) auto

lemma obj_put_twice: "obj_put (obj_put kvs k a) k b = obj_put kvs k b"
proof -
  have in1: "k \<in> fst ` set (obj_put kvs k a)" by (simp add: keys_obj_put)
  show ?thesis
  proof (cases "k \<in> fst ` set kvs")
    case True
    then show ?thesis using in1 by (simp add: obj_put_def replace_key_twice keys_replace_key)
  next
    case False
    then show ?thesis using in1
      by (auto simp: obj_put_def replace_key_insert_index replace_key_append_new
               split: option.splits)
  qed
qed

lemma arr_put_twice: "arr_put (arr_put xs i a) i b = arr_put xs i b"
  by (auto simp: arr_put_def list_update_append)

lemma prop_set_twice: "prop_set c k a = Inr c1 \<Longrightarrow> prop_set c1 k b = prop_set c k b"
  by (cases c) (auto simp: obj_put_twice arr_put_twice split: option.splits)

lemma prop_set_container: "prop_set c k v = Inr c' \<Longrightarrow> isArray c \<or> isObject c"
  by (cases c) auto

lemma prop_set_total: "isArray c \<or> isObject c \<Longrightarrow> \<exists>c'. prop_set c k v = Inr c'"
  by (cases c) (auto split: option.splits)

lemma container_not_nullish: "isArray c \<or> isObject c \<Longrightarrow> \<not> nullish c \<and> c \<noteq> JUndefined \<and> c \<noteq> JNull"
  by (cases c) auto


lemma assign_last_container: "assign_last c k v = Inr c' \<Longrightarrow> isArray c \<or> isObject c"
  by (auto simp: assign_last_def idx_set_def dest: prop_set_container split: option.splits if_splits)


lemma final_assign_prop_set: "final_assign prop_set"
  unfolding final_assign_def
  using prop_set_kind prop_set_twice prop_set_container by metis




subsection \<open>Reading back what was written\<close>

lemma get_step_container:
  assumes "isArray c \<or> isObject c" "canonical_key k"
  shows "get_step c k = own_prop c k"
proof (cases "parseInt k")
  case None
  with assms(1) show ?thesis by (cases c) (auto simp: get_step_def)
next
  case (Some i)
  with assms(2) obtain n where n: "array_index k = Some n" by (auto simp: canonical_key_def)
  from array_index_parseInt[OF n] Some have i: "i = int n" "n < 4294967295" by auto
  show ?thesis
  proof (cases c)
    case (JArr xs ps)
    then show ?thesis using Some i n
      by (simp add: get_step_def idx_get_def num_key_nat array_index_dec_digits)
  next
    case (JObj kvs)
    then show ?thesis using Some by (simp add: get_step_def)
  qed (use assms(1) in auto)
qed

lemma get_step_assign_last:
  assumes "assign_last c k v = Inr c'"
  shows "get_step c' k = v"
proof -
  from assms have cont: "isArray c \<or> isObject c" by (rule assign_last_container)
  from assign_last_kind[OF assms] have kind: "isArray c' = isArray c" "isObject c' = isObject c"
    by auto
  from cont kind have nn: "c' \<noteq> JUndefined" "c' \<noteq> JNull" by (cases c'; auto)+
  show ?thesis
  proof (cases "parseInt k")
    case None
    with assms have "prop_set c k v = Inr c'" by (simp add: assign_last_def)
    then have "own_prop c' k = v" by (rule own_prop_prop_set_same)
    with None nn show ?thesis by (simp add: get_step_def)
  next
    case (Some i)
    show ?thesis
    proof (cases "isArray c")
      case True
      with assms Some have "prop_set c (num_key i) v = Inr c'" by (simp add: assign_last_def idx_set_def)
      then have "own_prop c' (num_key i) = v" by (rule own_prop_prop_set_same)
      with Some nn True kind show ?thesis by (simp add: get_step_def idx_get_def)
    next
      case False
      with assms Some have "prop_set c k v = Inr c'" by (simp add: assign_last_def)
      then have "own_prop c' k = v" by (rule own_prop_prop_set_same)
      with Some nn False kind show ?thesis by (simp add: get_step_def)
    qed
  qed
qed

lemma get_after_set:
  "setNestedParts assign_last c parts v = Inr c' \<Longrightarrow> parts \<noteq> [] \<Longrightarrow>
     \<forall>k \<in> set (butlast parts). canonical_key k \<Longrightarrow> foldl get_step c' parts = v"
proof (induction assign_last c parts v arbitrary: c' rule: setNestedParts.induct)
  case (1 current v)
  then show ?case by simp
next
  case (2 current lastKey v)
  then show ?case by (simp add: get_step_assign_last)
next
  case (3 current key nextKey rest v)
  let ?child0 = "if own_prop current key = JUndefined then fresh_container nextKey
                 else own_prop current key"
  from "3.prems"(1) obtain cur1 child' where
    nn: "\<not> nullish current" and
    c: "setNestedParts assign_last ?child0 (nextKey # rest) v = Inr child'" and
    p: "prop_set cur1 key child' = Inr c'"
    by (auto simp: prop_get_def split: sum.splits if_splits)
  from "3.prems"(3) have ck: "canonical_key key"
    and crest: "\<forall>k \<in> set (butlast (nextKey # rest)). canonical_key k"
    by auto
  have inner: "foldl get_step child' (nextKey # rest) = v"
  proof (cases "own_prop current key = JUndefined")
    case True
    with c have s: "setNestedParts assign_last (fresh_container nextKey) (nextKey # rest) v = Inr child'"
      by simp
    from True nn "3.prems"(1) obtain cur0 where
      "prop_get current key = Inr JUndefined" "prop_set current key (fresh_container nextKey) = Inr cur0"
      by (auto simp: prop_get_def split: sum.splits)
    from "3.hyps"(1)[OF this(1) _ this(2) s _ crest] show ?thesis by simp
  next
    case False
    with c have s: "setNestedParts assign_last (own_prop current key) (nextKey # rest) v = Inr child'"
      by simp
    from nn have "prop_get current key = Inr (own_prop current key)" by (simp add: prop_get_def)
    from "3.hyps"(2)[OF this False s _ crest] show ?thesis by simp
  qed
  have cont: "isArray c' \<or> isObject c'"
    using prop_set_kind[OF p] prop_set_container[OF p] by simp
  have "get_step c' key = own_prop c' key" using get_step_container[OF cont ck] .
  also have "\<dots> = child'" using p by (rule own_prop_prop_set_same)
  finally show ?case using inner by simp
qed

lemma getNestedValue_after_set:
  assumes "setNestedValue t p v = Inr t'"
      and "\<forall>k \<in> set (butlast (split_on CHR ''.'' p)). canonical_key k"
  shows "getNestedValue t' p = v"
proof -
  have "split_on CHR ''.'' p \<noteq> []" by (cases p) (auto split: list.splits)
  with assms show ?thesis
    unfolding setNestedValue_def getNestedValue_def by (rule_tac get_after_set) auto
qed


section \<open>Writing a field twice\<close>









section \<open>Applying proposed changes\<close>

lemma apply_each_old_values:
  fixes cs cs2 :: "change list"
  shows "map change_id cs2 = map change_id cs \<Longrightarrow> map newValue cs2 = map newValue cs \<Longrightarrow>
     apply_each mt cs2 = apply_each mt cs"
proof (induction cs arbitrary: cs2 mt)
  case Nil
  then show ?case by simp
next
  case (Cons c cs)
  then obtain c2 cs2' where cs2: "cs2 = c2 # cs2'" by (cases cs2) auto
  with Cons.prems have h: "change_id c2 = change_id c" "newValue c2 = newValue c"
    "map change_id cs2' = map change_id cs" "map newValue cs2' = map newValue cs"
    by auto
  show ?case
    unfolding cs2 using h(1,2) Cons.IH[OF h(3,4)] by (simp split: sum.splits)
qed

lemma applyChanges_old_values:
  fixes cs cs2 :: "change list"
  assumes "map change_id cs2 = map change_id cs" "map newValue cs2 = map newValue cs"
  shows "applyChanges E fs pageSlug cs2 = applyChanges E fs pageSlug cs"
proof -
  have h: "apply_each mt cs2 = apply_each mt cs" for mt
    using assms by (rule apply_each_old_values)
  show ?thesis
    by (simp add: applyChanges_def Let_def h split: sum.splits prod.splits)
qed

lemma apply_each_last:
  "apply_each mt cs = Inr mt' \<Longrightarrow> cs \<noteq> [] \<Longrightarrow>
     \<exists>m. setNestedValue m (change_id (last cs)) (JStr (newValue (last cs))) = Inr mt'"
proof (induction cs arbitrary: mt)
  case Nil
  then show ?case by simp
next
  case (Cons c cs)
  from Cons.prems(1) obtain m1 where
    s: "setNestedValue mt (change_id c) (JStr (newValue c)) = Inr m1" and
    r: "apply_each m1 cs = Inr mt'"
    by (auto split: sum.splits)
  show ?case
  proof (cases "cs = []")
    case True
    with s r show ?thesis by auto
  next
    case False
    with Cons.IH[OF r] show ?thesis by simp
  qed
qed

lemma change_json_inj: "change_json c = change_json d \<Longrightarrow> c = d"
  by (cases c, cases d) (simp add: change_json_def)

text \<open>
  Claim C1 as the specification words it: an entry whose expected old value is not the
  live value is skipped. Here the live \<open>headline\<close> is \<open>A\<close>, the proposed entry expects
  \<open>Z\<close>, and the call writes \<open>B\<close> and reports the entry as applied.
\<close>

theorem ai_edit_overwrites_stale:
  "getNestedValue (JObj [(''headline'', JStr ''A''), (''features'', JArr [JStr ''f0'', JStr ''f1'', JStr ''f2''] [])]) ''headline'' = JStr ''A'' \<and>
   demo_files ''/app/src/pages/home.mdx'' =
     Some (JObj [(''title'', JStr ''Home''),
                 (''microtext'', JObj [(''headline'', JStr ''A''),
                                       (''features'', JArr [JStr ''f0'', JStr ''f1'', JStr ''f2''] [])])],
           ''# Body'') \<and>
   fst (POST_ai_edit demo_env demo_files (Some ''x'') (Some ''home'') (Some True)) =
     \<lparr>status = 200,
      body = JObj [(''success'', JBool True),
                   (''changes'', JArr [JObj [(''id'', JStr ''headline''), (''oldValue'', JStr ''Z''),
                                             (''newValue'', JStr ''B''), (''reasoning'', JStr ''shorter'')]] []),
                   (''applied'', JBool True)]\<rparr> \<and>
   snd (POST_ai_edit demo_env demo_files (Some ''x'') (Some ''home'') (Some True)) ''/app/src/pages/home.mdx'' =
     Some (JObj [(''title'', JStr ''Home''),
                 (''microtext'', JObj [(''headline'', JStr ''B''),
                                       (''features'', JArr [JStr ''f0'', JStr ''f1'', JStr ''f2''] [])])],
           ''# Body'')"
  by code_simp

text \<open>
  Claim C1 as the code has it, for a request to the instruction endpoint with
  \<^verbatim>\<open>apply: true\<close> that is answered with status 200, the interpreter having proposed the
  changes \<open>cs\<close>. The answer lists every proposed change and says \<^verbatim>\<open>applied: true\<close>. The
  page file is rewritten, and its microtext is the one read at apply time with
  \<^verbatim>\<open>setNestedValue(microtext, id, newValue)\<close> done for every entry, in order; none is
  skipped, and the value then read at the path of the last entry is its new value (for a
  path of plain keys without non-canonical numerals, and a front matter library that
  writes what it reads). The old values of the entries play no part: the same entries with
  any other old values give the same files.
\<close>

theorem ai_edit_applies_every_entry:
  assumes codec: "lossless E"
      and req: "ins \<noteq> []" "slug \<noteq> []"
      and page: "readFile fs (page_file E slug) = Inr f" "parse_matter E f = Inr (data, mdxBody)"
                "prop_get data ''microtext'' = Inr mt" "\<not> falsy mt"
      and proposed: "flattenMicrotext mt [] = Inr flat" "interpretInstruction E ins flat = Inr cs"
                    "cs \<noteq> []"
      and answer: "POST_ai_edit E fs (Some ins) (Some slug) (Some True) = (r, fs')" "status r = 200"
      and keys: "\<forall>k \<in> set (split_on CHR ''.'' (change_id (last cs))). plain_key k"
                "\<forall>k \<in> set (butlast (split_on CHR ''.'' (change_id (last cs)))). canonical_key k"
  shows "r = \<lparr>status = 200,
              body = JObj [(''success'', JBool True),
                           (''changes'', JArr (map change_json cs) []),
                           (''applied'', JBool True)]\<rparr> \<and>
         (\<exists>mt' data' f'.
            apply_each mt cs = Inr mt' \<and>
            fs' = fs(page_file E slug \<mapsto> f') \<and>
            parse_matter E f' = Inr (data', mdxBody) \<and>
            prop_get data' ''microtext'' = Inr mt' \<and>
            getNestedValue mt' (change_id (last cs)) = JStr (newValue (last cs))) \<and>
         (\<forall>cs2 :: change list. map change_id cs2 = map change_id cs \<and> map newValue cs2 = map newValue cs \<longrightarrow>
            applyChanges E fs slug cs2 = Inr fs')"
proof -
  let ?ok = "\<lparr>status = 200,
              body = JObj [(''success'', JBool True), (''changes'', JArr (map change_json cs) []),
                           (''applied'', JBool True)]\<rparr>"
  have page_edit: "ai_edit_page E fs ins slug True f =
       (case applyChanges E fs slug cs of Inl e \<Rightarrow> Inl e | Inr fs2 \<Rightarrow> Inr (?ok, fs2))"
    unfolding ai_edit_page_def using page(2,3,4) proposed by simp
  have post: "POST_ai_edit E fs (Some ins) (Some slug) (Some True) =
       (case applyChanges E fs slug cs of
          Inl e \<Rightarrow> (ai_failure 500 (error_message e), fs)
        | Inr fs2 \<Rightarrow> (?ok, fs2))"
    unfolding POST_ai_edit_def using req page(1) by (simp add: page_edit split: sum.splits)
  obtain fs2 where ap2: "applyChanges E fs slug cs = Inr fs2"
  proof (cases "applyChanges E fs slug cs")
    case (Inl e)
    with post answer have "status r = 500" by (auto simp: ai_failure_def)
    with answer(2) show ?thesis by simp
  next
    case (Inr fs2)
    then show ?thesis by (rule that)
  qed
  with post answer(1) have r: "r = ?ok" and "fs2 = fs'" by simp_all
  with ap2 have ap: "applyChanges E fs slug cs = Inr fs'" by simp
  have "applyChanges E fs slug cs =
      (case apply_each mt cs of
         Inl e \<Rightarrow> Inl e
       | Inr m \<Rightarrow> (case prop_set data ''microtext'' m of
                     Inl e \<Rightarrow> Inl e
                   | Inr d \<Rightarrow> write_matter E fs (page_file E slug) mdxBody d))"
    unfolding applyChanges_def Let_def using page by simp
  with ap obtain mt' data' where
    ae: "apply_each mt cs = Inr mt'" and
    ps: "prop_set data ''microtext'' mt' = Inr data'" and
    wm: "write_matter E fs (page_file E slug) mdxBody data' = Inr fs'"
    by (auto split: sum.splits)
  from wm obtain f' where
    sf: "stringify E mdxBody data' = Some f'" and
    fs': "fs' = fs(page_file E slug \<mapsto> f')"
    by (auto simp: write_matter_def split: option.splits)
  have pm: "parse_matter E f' = Inr (data', mdxBody)"
    using codec sf by (simp add: lossless_def parse_matter_def)
  have nn: "\<not> nullish data'" using prop_set_kind[OF ps] prop_set_container[OF ps]
    by (cases data') auto
  have pg: "prop_get data' ''microtext'' = Inr mt'"
    using own_prop_prop_set_same[OF ps] nn by (simp add: prop_get_def)
  from apply_each_last[OF ae proposed(3)] obtain m where
    "setNestedValue m (change_id (last cs)) (JStr (newValue (last cs))) = Inr mt'" ..
  from getNestedValue_after_set[OF this keys(2)]
  have gv: "getNestedValue mt' (change_id (last cs)) = JStr (newValue (last cs))" .
  have old: "\<forall>cs2 :: change list. map change_id cs2 = map change_id cs \<and> map newValue cs2 = map newValue cs \<longrightarrow>
            applyChanges E fs slug cs2 = Inr fs'"
  proof (intro allI impI)
    fix cs2 :: "change list"
    assume "map change_id cs2 = map change_id cs \<and> map newValue cs2 = map newValue cs"
    then have "applyChanges E fs slug cs2 = applyChanges E fs slug cs"
      using applyChanges_old_values by blast
    with ap show "applyChanges E fs slug cs2 = Inr fs'" by simp
  qed
  from ae fs' pm pg gv have
    "\<exists>mt' data' f'.
            apply_each mt cs = Inr mt' \<and>
            fs' = fs(page_file E slug \<mapsto> f') \<and>
            parse_matter E f' = Inr (data', mdxBody) \<and>
            prop_get data' ''microtext'' = Inr mt' \<and>
            getNestedValue mt' (change_id (last cs)) = JStr (newValue (last cs))"
    by blast
  with r old show ?thesis by (intro conjI)
qed

text \<open>The theorem on the demonstration page, where the proposed old value \<open>Z\<close> is not the live one.\<close>

lemma demo_truthy:
  "\<not> falsy (JObj [(''headline'', JStr ''A''),
                  (''features'', JArr [JStr ''f0'', JStr ''f1'', JStr ''f2''] [])])"
  by simp

lemma demo_applied:
  "fst (POST_ai_edit demo_env demo_files (Some ''x'') (Some ''home'') (Some True)) =
     \<lparr>status = 200,
      body = JObj [(''success'', JBool True),
                   (''changes'', JArr [JObj [(''id'', JStr ''headline''), (''oldValue'', JStr ''Z''),
                                             (''newValue'', JStr ''B''), (''reasoning'', JStr ''shorter'')]] []),
                   (''applied'', JBool True)]\<rparr>"
  by code_simp

lemma demo_change_keys:
  "\<forall>k \<in> set (split_on CHR ''.'' ''headline''). plain_key k"
  "\<forall>k \<in> set (butlast (split_on CHR ''.'' ''headline'')). canonical_key k"
  by code_simp+

theorem ai_edit_applies_every_entry_witness:
  "fst (POST_ai_edit demo_env demo_files (Some ''x'') (Some ''home'') (Some True)) =
     \<lparr>status = 200,
      body = JObj [(''success'', JBool True),
                   (''changes'', JArr [JObj [(''id'', JStr ''headline''), (''oldValue'', JStr ''Z''),
                                             (''newValue'', JStr ''B''), (''reasoning'', JStr ''shorter'')]] []),
                   (''applied'', JBool True)]\<rparr> \<and>
   applyChanges demo_env demo_files ''home''
       [\<lparr>change_id = ''headline'', oldValue = ''A'', newValue = ''B'', reasoning = ''''\<rparr>] =
     Inr (snd (POST_ai_edit demo_env demo_files (Some ''x'') (Some ''home'') (Some True)))"
proof -
  let ?cs = "[\<lparr>change_id = ''headline'', oldValue = ''Z'', newValue = ''B'', reasoning = ''shorter''\<rparr>]"
  let ?cs2 = "[\<lparr>change_id = ''headline'', oldValue = ''A'', newValue = ''B'', reasoning = ''''\<rparr>]"
  have p: "POST_ai_edit demo_env demo_files (Some ''x'') (Some ''home'') (Some True) =
           (fst (POST_ai_edit demo_env demo_files (Some ''x'') (Some ''home'') (Some True)),
            snd (POST_ai_edit demo_env demo_files (Some ''x'') (Some ''home'') (Some True)))"
    by simp
  have s: "status (fst (POST_ai_edit demo_env demo_files (Some ''x'') (Some ''home'') (Some True))) = 200"
    by (simp add: demo_applied)
  have i: "''x'' \<noteq> []" "''home'' \<noteq> []" "?cs \<noteq> []" by simp_all
  have k: "\<forall>k \<in> set (split_on CHR ''.'' (change_id (last ?cs))). plain_key k"
    "\<forall>k \<in> set (butlast (split_on CHR ''.'' (change_id (last ?cs)))). canonical_key k"
    using demo_change_keys by simp_all
  note t = ai_edit_applies_every_entry[OF demo_lossless i(1,2) demo_read demo_parse demo_mt
      demo_truthy demo_flat demo_interpret i(3) p s k]
  from t have "\<forall>cs2 :: change list. map change_id cs2 = map change_id ?cs \<and> map newValue cs2 = map newValue ?cs \<longrightarrow>
      applyChanges demo_env demo_files ''home'' cs2 =
        Inr (snd (POST_ai_edit demo_env demo_files (Some ''x'') (Some ''home'') (Some True)))"
    by (elim conjE)
  then have "applyChanges demo_env demo_files ''home'' ?cs2 =
        Inr (snd (POST_ai_edit demo_env demo_files (Some ''x'') (Some ''home'') (Some True)))"
    by simp
  with demo_applied show ?thesis by (intro conjI)
qed

end
